theory Spec2Isabelle
  imports Main "HOL-Library.Sublist" "HOL-Library.Multiset"
begin

section \<open>JavaScript values used by the Docker interception code\<close>

text \<open>
  A plain JavaScript object with string keys is kept as the list of its own enumerable
  properties, in the order \<open>Object.keys\<close> reports them. \<open>undefined\<close> is \<open>None\<close>.
\<close>

type_synonym 'v js_object = "(string \<times> 'v) list"

definition object_keys :: "'v js_object \<Rightarrow> string list" where
  "object_keys obj = map fst obj"

definition js_get :: "'v js_object \<Rightarrow> string \<Rightarrow> 'v option" where
  "js_get obj k = map_of obj k"

definition is_digit :: "char \<Rightarrow> bool" where
  "is_digit c = (c \<in> set ''0123456789'')"

definition digit_val :: "char \<Rightarrow> int" where
  "digit_val c = int (of_char c) - 48"

definition digits_value :: "string \<Rightarrow> int" where
  "digits_value s = foldl (\<lambda>n c. 10 * n + digit_val c) 0 s"

text \<open>
  An array index is a canonical decimal numeral below \<open>2^32 - 1\<close>. Such keys are listed
  first by \<open>Object.keys\<close>, in ascending numeric order; all other string keys follow in
  the order in which they were created.
\<close>

definition is_array_index :: "string \<Rightarrow> bool" where
  "is_array_index k =
     (k \<noteq> [] \<and> list_all is_digit k \<and> (k = ''0'' \<or> hd k \<noteq> CHR ''0'')
      \<and> digits_value k < 4294967295)"

fun insert_index :: "string \<Rightarrow> 'v \<Rightarrow> 'v js_object \<Rightarrow> 'v js_object" where
  "insert_index k v [] = [(k, v)]"
| "insert_index k v ((k', v') # rest) =
     (if is_array_index k' \<and> digits_value k' < digits_value k
      then (k', v') # insert_index k v rest
      else (k, v) # (k', v') # rest)"

definition js_define :: "'v js_object \<Rightarrow> string \<Rightarrow> 'v \<Rightarrow> 'v js_object" where
  "js_define obj k v = (if is_array_index k then insert_index k v obj else obj @ [(k, v)])"

text \<open>
  The assignment \<open>obj[k] = v\<close> on an object created by the literal \<open>{}\<close>, for a value
  \<open>v\<close> that is a string. Assigning to the key \<open>__proto__\<close> runs the setter inherited
  from \<open>Object.prototype\<close>, which ignores a value that is neither an object nor null, so
  no own property is created.
\<close>

definition js_set :: "'v js_object \<Rightarrow> string \<Rightarrow> 'v \<Rightarrow> 'v js_object" where
  "js_set obj k v =
     (if k = ''__proto__'' then obj
      else if k \<in> set (object_keys obj)
      then map (\<lambda>(k', v'). if k' = k then (k', v) else (k', v')) obj
      else js_define obj k v)"

text \<open>lodash \<open>_.fromPairs\<close>: \<open>result = {}; result[pair[0]] = pair[1]\<close> for each pair in turn.\<close>

definition fromPairs :: "(string \<times> 'v) list \<Rightarrow> 'v js_object" where
  "fromPairs pairs = foldl (\<lambda>result (k, v). js_set result k v) [] pairs"

text \<open>lodash \<open>_.uniq\<close> keeps the first occurrence of every element.\<close>

definition uniq :: "'a list \<Rightarrow> 'a list" where
  "uniq xs = rev (remdups (rev xs))"

text \<open>\<open>String.prototype.indexOf\<close> for a one-character needle: \<open>-1\<close> when absent.\<close>

definition indexOf :: "string \<Rightarrow> char \<Rightarrow> int" where
  "indexOf e c = (if c \<in> set e then int (length (takeWhile (\<lambda>x. x \<noteq> c) e)) else - 1)"

text \<open>\<open>s.slice(a, b)\<close> and \<open>s.slice(a)\<close> for indices that are not negative.\<close>

definition slice :: "'a list \<Rightarrow> int \<Rightarrow> int \<Rightarrow> 'a list" where
  "slice s a b = take (nat b - nat a) (drop (nat a) s)"

definition slice_from :: "'a list \<Rightarrow> int \<Rightarrow> 'a list" where
  "slice_from s a = drop (nat a) s"

text \<open>
  Decimal rendering of a non-negative integer, as \<open>String(n)\<close> and template strings do
  for numbers below \<open>10^21\<close>; from there on JavaScript writes an exponent.
\<close>

fun string_of_nat :: "nat \<Rightarrow> string" where
  "string_of_nat n =
     (if n < 10 then [''0123456789'' ! n]
      else string_of_nat (n div 10) @ [''0123456789'' ! (n mod 10)])"

text \<open>\<open>Object.keys\<close> of an array: its indices, as decimal strings.\<close>

definition array_keys :: "'a list \<Rightarrow> string list" where
  "array_keys xs = map string_of_nat [0..<length xs]"

text \<open>
  \<open>parseInt(s, radix)\<close> for a radix of at most ten: leading white space and a sign are
  skipped, the longest run of digits below the radix is read, and the result is \<open>NaN\<close>
  when that run is empty. Strings are lists of 8-bit characters here; JavaScript's white
  space and line terminators among them are the codes 9 to 13, 32 and 160. A JavaScript number is a double: an integer of magnitude up to
  \<open>2^53\<close> is exact, a larger one is rounded, which \<open>Rounded\<close> records without computing.
\<close>

datatype js_number = NaN | Number int | Rounded int

definition js_whitespace :: "char \<Rightarrow> bool" where
  "js_whitespace c = (of_char c \<in> {9, 10, 11, 12, 13, 32, 160 :: nat})"

definition parseInt :: "string \<Rightarrow> int \<Rightarrow> js_number" where
  "parseInt s radix =
     (let t = dropWhile js_whitespace s;
          neg = (t \<noteq> [] \<and> hd t = CHR ''-'');
          t' = (if t \<noteq> [] \<and> hd t \<in> {CHR ''-'', CHR ''+''} then tl t else t);
          ds = takeWhile (\<lambda>c. is_digit c \<and> digit_val c < radix) t';
          n = foldl (\<lambda>n c. radix * n + digit_val c) 0 ds
      in if ds = [] then NaN
         else if n \<le> 9007199254740992 then Number (if neg then - n else n)
         else Rounded (if neg then - n else n))"

section \<open>Errors\<close>

text \<open>
  A rejected engine request carries the HTTP status of the daemon's answer, when there
  was one. \<open>Error msg\<close> is \<open>new Error(msg)\<close> thrown by the code itself; \<open>TypeError\<close>
  is a property read on \<open>undefined\<close>.
\<close>

datatype engine_error = EngineFailure (statusCode: "nat option")

datatype error = EngineError engine_error | Error string | TypeError

section \<open>Env codec\<close>

text \<open>The callback of \<open>envArray.map\<close> in \<open>envArrayToObject\<close>.\<close>

definition envEntryToPair :: "string \<Rightarrow> error + (string \<times> string)" where
  "envEntryToPair e =
     (let equalsIndex = indexOf e CHR ''=''
      in if equalsIndex = - 1 then Inl (Error ''Env var without ='')
         else Inr (slice e 0 equalsIndex, slice_from e (equalsIndex + 1)))"

text \<open>\<open>Array.prototype.map\<close> with a callback that may throw: the first throw ends the map.\<close>

fun map_throwing :: "('a \<Rightarrow> error + 'b) \<Rightarrow> 'a list \<Rightarrow> error + 'b list" where
  "map_throwing f [] = Inr []"
| "map_throwing f (x # xs) =
     (case f x of
        Inl err \<Rightarrow> Inl err
      | Inr y \<Rightarrow> (case map_throwing f xs of Inl err \<Rightarrow> Inl err | Inr ys \<Rightarrow> Inr (y # ys)))"

definition envArrayToObject :: "string list \<Rightarrow> error + string js_object" where
  "envArrayToObject envArray =
     (case map_throwing envEntryToPair envArray of
        Inl err \<Rightarrow> Inl err
      | Inr pairs \<Rightarrow> Inr (fromPairs pairs))"

definition envObjectToArray :: "string js_object \<Rightarrow> string list" where
  "envObjectToArray envObject =
     map (\<lambda>k. k @ ''='' @ (case js_get envObject k of Some v \<Rightarrow> v | None \<Rightarrow> ''undefined''))
       (object_keys envObject)"

text \<open>The key of an env entry: everything before its first \<open>=\<close>.\<close>

definition entry_key :: "string \<Rightarrow> string" where
  "entry_key e = takeWhile (\<lambda>c. c \<noteq> CHR ''='') e"

section \<open>POSIX paths\<close>

text \<open>
  Node's \<open>path.posix.join\<close>: the non-empty arguments are joined with \<open>/\<close> and the result
  is normalised. Normalising drops empty and \<open>.\<close> segments, lets a \<open>..\<close> segment remove
  the segment before it (on an absolute path a \<open>..\<close> at the root is dropped, on a
  relative path it is kept), and keeps a trailing slash.
\<close>

fun split_on :: "char \<Rightarrow> string \<Rightarrow> string list" where
  "split_on c [] = [[]]"
| "split_on c (x # xs) =
     (if x = c then [] # split_on c xs
      else (case split_on c xs of [] \<Rightarrow> [[x]] | s # ss \<Rightarrow> (x # s) # ss))"

fun join_with_slash :: "string list \<Rightarrow> string" where
  "join_with_slash [] = []"
| "join_with_slash [s] = s"
| "join_with_slash (s # t # ss) = s @ ''/'' @ join_with_slash (t # ss)"

definition normalize_step :: "bool \<Rightarrow> string list \<Rightarrow> string \<Rightarrow> string list" where
  "normalize_step allowAboveRoot res seg =
     (if seg = [] \<or> seg = ''.'' then res
      else if seg = ''..'' then
        (if res \<noteq> [] \<and> last res \<noteq> ''..'' then butlast res
         else if allowAboveRoot then res @ [''..''] else res)
      else res @ [seg])"

definition normalizeString :: "string \<Rightarrow> bool \<Rightarrow> string" where
  "normalizeString p allowAboveRoot =
     join_with_slash (foldl (normalize_step allowAboveRoot) [] (split_on CHR ''/'' p))"

definition posix_normalize :: "string \<Rightarrow> string" where
  "posix_normalize p =
     (if p = [] then ''.''
      else let isAbsolute = (hd p = CHR ''/'');
               trailingSeparator = (last p = CHR ''/'');
               q = normalizeString p (\<not> isAbsolute)
           in if q = [] then (if isAbsolute then ''/'' else if trailingSeparator then ''./'' else ''.'')
              else (if isAbsolute then ''/'' else []) @ q @ (if trailingSeparator then ''/'' else []))"

definition posix_join :: "string list \<Rightarrow> string" where
  "posix_join args =
     (let parts = filter (\<lambda>a. a \<noteq> []) args
      in if parts = [] then ''.'' else posix_normalize (join_with_slash parts))"

definition HTTP_TOOLKIT_INJECTED_PATH :: string where
  "HTTP_TOOLKIT_INJECTED_PATH = ''/http-toolkit-injections''"

definition HTTP_TOOLKIT_INJECTED_OVERRIDES_PATH :: string where
  "HTTP_TOOLKIT_INJECTED_OVERRIDES_PATH = posix_join [HTTP_TOOLKIT_INJECTED_PATH, ''overrides'']"

definition HTTP_TOOLKIT_INJECTED_CA_PATH :: string where
  "HTTP_TOOLKIT_INJECTED_CA_PATH = posix_join [HTTP_TOOLKIT_INJECTED_PATH, ''ca.pem'']"

section \<open>Archive packer\<close>

text \<open>
  A tar entry header as the code handles it. tar-fs fills every field of the header of a
  file it found on disk; the header the code writes for the certificate names the path
  only, so the remaining fields are optional.
\<close>

datatype entry_type = File | Directory | Symlink

record tar_header =
  h_name :: string
  h_mode :: "js_number option"
  h_uid :: "nat option"
  h_gid :: "nat option"
  h_type :: "entry_type option"

text \<open>
  The tar-stream pack object: the entries written so far, and whether the stream has been
  finalized. An entry written after \<open>finalize()\<close> is dropped by tar-stream.
\<close>

record pack =
  p_entries :: "(tar_header \<times> string) list"
  p_finalized :: bool

definition new_pack :: pack where
  "new_pack = \<lparr>p_entries = [], p_finalized = False\<rparr>"

definition pack_entry :: "pack \<Rightarrow> tar_header \<Rightarrow> string \<Rightarrow> pack" where
  "pack_entry p header content =
     (if p_finalized p then p else p\<lparr>p_entries := p_entries p @ [(header, content)]\<rparr>)"

definition pack_finalize :: "pack \<Rightarrow> pack" where
  "pack_finalize p = p\<lparr>p_finalized := True\<rparr>"

text \<open>
  \<open>tarFs.pack(dir, {map, finalize, finish})\<close> of the tar-fs library, which is not part of
  this repository. Its documented behaviour: every file of the directory is written as an
  entry whose header went through \<open>map\<close>; afterwards the stream is finalized unless
  \<open>finalize\<close> is false; then \<open>finish\<close> is called with the pack. The directory is given
  as the list of headers and contents that tar-fs read from it, in the order of its walk;
  the names are paths relative to the directory.
\<close>

definition tarFs_pack ::
  "(tar_header \<times> string) list \<Rightarrow> (tar_header \<Rightarrow> tar_header) \<Rightarrow> bool \<Rightarrow> (pack \<Rightarrow> pack) \<Rightarrow> pack"
where
  "tarFs_pack dir map_header finalize finish =
     (let packed = foldl (\<lambda>p (header, content). pack_entry p (map_header header) content) new_pack dir
      in finish (if finalize then pack_finalize packed else packed))"

definition packInterceptionFiles :: "(tar_header \<times> string) list \<Rightarrow> string \<Rightarrow> pack" where
  "packInterceptionFiles overridesDir certContent =
     tarFs_pack overridesDir
       (\<lambda>fileHeader. fileHeader
          \<lparr>h_name := posix_join [HTTP_TOOLKIT_INJECTED_OVERRIDES_PATH, h_name fileHeader],
           h_uid := Some 0,
           h_gid := Some 0,
           h_mode := Some (parseInt ''555'' 8)\<rparr>)
       False
       (\<lambda>pack. pack_finalize
          (pack_entry pack
             \<lparr>h_name = HTTP_TOOLKIT_INJECTED_CA_PATH, h_mode = None, h_uid = None, h_gid = None,
              h_type = None\<rparr>
             certContent))"

section \<open>The container engine\<close>

text \<open>
  The data the code reads from and sends to the engine, with the fields it uses. The
  fields it only copies are kept as one opaque \<open>Other\<close> value.
\<close>

record endpoint_settings =
  es_NetworkID :: string
  es_IPAddress :: string
  es_Aliases :: "string list"

record port_binding =
  pb_HostIp :: string
  pb_HostPort :: "string option"

record host_config =
  hc_Binds :: "string list option"
  hc_AutoRemove :: bool
  hc_ExtraHosts :: "string list option"
  hc_PortBindings :: "port_binding list js_object"
  hc_Other :: string

record container_config =
  cfg_Image :: string
  cfg_Env :: "string list"
  cfg_Labels :: "string js_object"
  cfg_Other :: string

text \<open>
  The answer of \<open>container.inspect()\<close>: \<open>ci_Networks\<close> is \<open>NetworkSettings.Networks\<close>,
  \<open>ci_Ports\<close> is \<open>NetworkSettings.Ports\<close> (a port that is exposed but not published maps
  to \<open>null\<close>, which is \<open>None\<close> here), \<open>ci_Running\<close> is \<open>State.Running\<close>.
\<close>

record container_info =
  ci_Id :: string
  ci_Name :: string
  ci_Config :: container_config
  ci_HostConfig :: host_config
  ci_Networks :: "endpoint_settings js_object"
  ci_Ports :: "port_binding list option js_object"
  ci_Running :: bool

text \<open>
  The argument of \<open>docker.createContainer\<close>. \<open>co_EndpointsConfig\<close> is
  \<open>NetworkingConfig.EndpointsConfig\<close>, \<open>None\<close> when the request has no networking
  configuration.
\<close>

record create_options =
  co_name :: string
  co_Image :: string
  co_Env :: "string list"
  co_Labels :: "string js_object"
  co_Other :: string
  co_HostConfig :: host_config
  co_EndpointsConfig :: "endpoint_settings js_object option"

record connect_options =
  cn_Container :: string
  cn_EndpointConfig :: "endpoint_settings option"

record ipam_config =
  ic_Gateway :: "string option"

record ipam =
  ipam_Config :: "ipam_config list option"

record network_info =
  ni_Id :: string
  ni_IPAM :: "ipam option"

text \<open>
  One request to the engine together with its answer. The network of a connect or
  disconnect request is \<open>None\<close> when the code passes \<open>undefined\<close> as its id.
  \<open>EvListNetworks\<close> is always the query for the builtin bridge network
  (\<open>driver: bridge, type: builtin\<close>); \<open>EvListContainers\<close> lists all containers, running
  or not, that match a label filter, and answers with their ids.
\<close>

datatype event =
    EvInspectContainer string "engine_error + container_info"
  | EvStop string nat "engine_error + unit"
  | EvRemove string "engine_error + unit"
  | EvKill string "engine_error + unit"
  | EvStart string "engine_error + unit"
  | EvCreateContainer create_options "engine_error + string"
  | EvPutArchive string pack string "engine_error + unit"
  | EvConnect "string option" connect_options "engine_error + unit"
  | EvDisconnect "string option" string "engine_error + unit"
  | EvInspectImage string "engine_error + unit"
  | EvPull string "engine_error + unit"
  | EvVersion "engine_error + string"
  | EvListNetworks "engine_error + network_info list"
  | EvListContainers string "engine_error + string list"

text \<open>
  The engine is outside this code: any deterministic machine with a state of its own,
  which answers each request and moves to a new state.
\<close>

record 's engine =
  e_inspectContainer :: "string \<Rightarrow> 's \<Rightarrow> (engine_error + container_info) \<times> 's"
  e_stop :: "string \<Rightarrow> nat \<Rightarrow> 's \<Rightarrow> (engine_error + unit) \<times> 's"
  e_remove :: "string \<Rightarrow> 's \<Rightarrow> (engine_error + unit) \<times> 's"
  e_kill :: "string \<Rightarrow> 's \<Rightarrow> (engine_error + unit) \<times> 's"
  e_start :: "string \<Rightarrow> 's \<Rightarrow> (engine_error + unit) \<times> 's"
  e_createContainer :: "create_options \<Rightarrow> 's \<Rightarrow> (engine_error + string) \<times> 's"
  e_putArchive :: "string \<Rightarrow> pack \<Rightarrow> string \<Rightarrow> 's \<Rightarrow> (engine_error + unit) \<times> 's"
  e_connect :: "string option \<Rightarrow> connect_options \<Rightarrow> 's \<Rightarrow> (engine_error + unit) \<times> 's"
  e_disconnect :: "string option \<Rightarrow> string \<Rightarrow> 's \<Rightarrow> (engine_error + unit) \<times> 's"
  e_inspectImage :: "string \<Rightarrow> 's \<Rightarrow> (engine_error + unit) \<times> 's"
  e_pull :: "string \<Rightarrow> 's \<Rightarrow> (engine_error + unit) \<times> 's"
  e_version :: "'s \<Rightarrow> (engine_error + string) \<times> 's"
  e_listNetworks :: "'s \<Rightarrow> (engine_error + network_info list) \<times> 's"
  e_listContainers :: "string \<Rightarrow> 's \<Rightarrow> (engine_error + string list) \<times> 's"

text \<open>The world of a run: the engine's state and every request made so far, in order.\<close>

record 's world =
  est :: 's
  events :: "event list"

section \<open>Asynchronous code as state passing\<close>

text \<open>
  An asynchronous computation takes the world and gives back the world together with
  either the value it resolved with or the error it rejected with.
\<close>

type_synonym ('s, 'a) io = "'s world \<Rightarrow> (error + 'a) \<times> 's world"

definition resolve :: "'a \<Rightarrow> ('s, 'a) io" where
  "resolve x w = (Inr x, w)"

definition reject :: "error \<Rightarrow> ('s, 'a) io" where
  "reject err w = (Inl err, w)"

text \<open>The outcome of synchronous code that may throw.\<close>

definition settled :: "error + 'a \<Rightarrow> ('s, 'a) io" where
  "settled r w = (r, w)"

text \<open>\<open>const x = await m; f(x)\<close>: a rejection of \<open>m\<close> ends the computation.\<close>

definition await :: "('s, 'a) io \<Rightarrow> ('a \<Rightarrow> ('s, 'b) io) \<Rightarrow> ('s, 'b) io" where
  "await m f w = (case m w of (Inl err, w') \<Rightarrow> (Inl err, w') | (Inr x, w') \<Rightarrow> f x w')"

text \<open>\<open>m.catch(handler)\<close>.\<close>

definition catch :: "('s, 'a) io \<Rightarrow> (error \<Rightarrow> ('s, 'a) io) \<Rightarrow> ('s, 'a) io" where
  "catch m handler w = (case m w of (Inl err, w') \<Rightarrow> handler err w' | (Inr x, w') \<Rightarrow> (Inr x, w'))"

text \<open>
  A promise that is created now and awaited later: its request is made at once, and the
  way it settled is kept as a value.
\<close>

definition start_promise :: "('s, 'a) io \<Rightarrow> ('s, error + 'a) io" where
  "start_promise m w = (case m w of (r, w') \<Rightarrow> (Inr r, w'))"

text \<open>
  \<open>Promise.all(jobs)\<close> for jobs that make one request each: every job is started,
  whatever happens to the others, and the result rejects when one of them does. The
  requests are made in the order of the list, and the engine answers them in that order;
  the rejection reported is that of the first job of the list that failed.
\<close>

fun promise_all :: "('s, 'a) io list \<Rightarrow> ('s, 'a list) io" where
  "promise_all [] w = (Inr [], w)"
| "promise_all (job # jobs) w =
     (case job w of (r, w1) \<Rightarrow>
        (case promise_all jobs w1 of (rs, w2) \<Rightarrow>
           ((case r of
               Inl err \<Rightarrow> Inl err
             | Inr x \<Rightarrow> (case rs of Inl err \<Rightarrow> Inl err | Inr xs \<Rightarrow> Inr (x # xs))), w2)))"

text \<open>
  \<open>Promise.all(xs.map(async (x) => { await first; ... }))\<close> for callbacks that go on after
  their first \<open>await\<close>. A callback runs up to its first \<open>await\<close> when \<open>map\<close> calls it, so
  the promise it awaits first is created, and its request made, before the next callback
  is called; no callback goes on before all of them have been called. A job is given by
  that first promise and by what the callback does with the value it resolved with; a
  callback whose first promise rejects is rejected. The callbacks go on in the order of
  the list.
\<close>

fun start_all :: "('s, 'a) io list \<Rightarrow> 's world \<Rightarrow> (error + 'a) list \<times> 's world" where
  "start_all [] w = ([], w)"
| "start_all (m # ms) w =
     (case m w of (r, w1) \<Rightarrow> (case start_all ms w1 of (rs, w2) \<Rightarrow> (r # rs, w2)))"

definition promise_all_async :: "(('s, 'a) io \<times> ('a \<Rightarrow> ('s, 'b) io)) list \<Rightarrow> ('s, 'b list) io" where
  "promise_all_async jobs w =
     (case start_all (map fst jobs) w of
        (firsts, w1) \<Rightarrow>
          promise_all (map (\<lambda>(job, first). await (settled first) (snd job)) (zip jobs firsts)) w1)"

text \<open>
  \<open>containerMutex.runExclusive(f)\<close>. The calls modelled here do not overlap, so the lock
  is free when it is asked for and \<open>f\<close> runs at once.
\<close>

definition runExclusive :: "('s, 'a) io \<Rightarrow> ('s, 'a) io" where
  "runExclusive f = f"

text \<open>One request: the engine answers and moves on, and the request is recorded.\<close>

definition engine_result :: "engine_error + 'a \<Rightarrow> error + 'a" where
  "engine_result answer = (case answer of Inl err \<Rightarrow> Inl (EngineError err) | Inr x \<Rightarrow> Inr x)"

definition request ::
  "('s \<Rightarrow> (engine_error + 'a) \<times> 's) \<Rightarrow> (engine_error + 'a \<Rightarrow> event) \<Rightarrow> ('s, 'a) io"
where
  "request op ev w =
     (case op (est w) of (answer, s') \<Rightarrow>
        (engine_result answer, \<lparr>est = s', events = events w @ [ev answer]\<rparr>))"

definition container_inspect :: "'s engine \<Rightarrow> string \<Rightarrow> ('s, container_info) io" where
  "container_inspect docker c = request (e_inspectContainer docker c) (EvInspectContainer c)"

definition container_stop :: "'s engine \<Rightarrow> string \<Rightarrow> nat \<Rightarrow> ('s, unit) io" where
  "container_stop docker c t = request (e_stop docker c t) (EvStop c t)"

definition container_remove :: "'s engine \<Rightarrow> string \<Rightarrow> ('s, unit) io" where
  "container_remove docker c = request (e_remove docker c) (EvRemove c)"

definition container_kill :: "'s engine \<Rightarrow> string \<Rightarrow> ('s, unit) io" where
  "container_kill docker c = request (e_kill docker c) (EvKill c)"

definition container_start :: "'s engine \<Rightarrow> string \<Rightarrow> ('s, unit) io" where
  "container_start docker c = request (e_start docker c) (EvStart c)"

definition createContainer :: "'s engine \<Rightarrow> create_options \<Rightarrow> ('s, string) io" where
  "createContainer docker opts = request (e_createContainer docker opts) (EvCreateContainer opts)"

definition putArchive :: "'s engine \<Rightarrow> string \<Rightarrow> pack \<Rightarrow> string \<Rightarrow> ('s, unit) io" where
  "putArchive docker c archive path =
     request (e_putArchive docker c archive path) (EvPutArchive c archive path)"

definition network_connect :: "'s engine \<Rightarrow> string option \<Rightarrow> connect_options \<Rightarrow> ('s, unit) io" where
  "network_connect docker n opts = request (e_connect docker n opts) (EvConnect n opts)"

definition network_disconnect :: "'s engine \<Rightarrow> string option \<Rightarrow> string \<Rightarrow> ('s, unit) io" where
  "network_disconnect docker n c = request (e_disconnect docker n c) (EvDisconnect n c)"

definition image_inspect :: "'s engine \<Rightarrow> string \<Rightarrow> ('s, unit) io" where
  "image_inspect docker img = request (e_inspectImage docker img) (EvInspectImage img)"

definition pull :: "'s engine \<Rightarrow> string \<Rightarrow> ('s, unit) io" where
  "pull docker img = request (e_pull docker img) (EvPull img)"

definition version :: "'s engine \<Rightarrow> ('s, string) io" where
  "version docker = request (e_version docker) EvVersion"

definition listNetworks :: "'s engine \<Rightarrow> ('s, network_info list) io" where
  "listNetworks docker = request (e_listNetworks docker) EvListNetworks"

definition listContainers :: "'s engine \<Rightarrow> string \<Rightarrow> ('s, string list) io" where
  "listContainers docker label = request (e_listContainers docker label) (EvListContainers label)"

section \<open>What the code takes from outside\<close>

text \<open>
  Constants and functions the two files import from modules that are not modelled:
  \<open>OVERRIDES_DIR\<close> and \<open>getTerminalEnvVars\<close> of the terminal overrides,
  \<open>DOCKER_HOST_HOSTNAME\<close> of the Docker commands, \<open>process.platform\<close>, and the semver
  test \<open>semver.satisfies(semver.coerce(v) || '0.0.0', '>= 20.10')\<close> on the engine's version
  string \<open>v\<close>. \<open>overridesDirFiles\<close> is what tar-fs reads from \<open>OVERRIDES_DIR\<close>.
\<close>

record env_context =
  httpToolkitIp :: string
  overridePath :: string
  targetPlatform :: string

record deps =
  OVERRIDES_DIR :: string
  overridesDirFiles :: "(tar_header \<times> string) list"
  getTerminalEnvVars :: "nat \<Rightarrow> string \<Rightarrow> string js_object \<Rightarrow> env_context \<Rightarrow> string js_object"
  DOCKER_HOST_HOSTNAME :: string
  platformIsLinux :: bool
  satisfies_20_10 :: "string \<Rightarrow> bool"

section \<open>Container replacer\<close>

datatype interception_type = Mount | Inject

record interception_options =
  io_interceptionType :: interception_type
  io_proxyPort :: nat
  io_certContent :: string
  io_certPath :: string

text \<open>
  The object literal passed to \<open>docker.createContainer\<close> in \<open>restartAndInjectContainer\<close>.
  It is evaluated before the request is made, and \<open>envArrayToObject\<close> may throw in it.
  A property whose value is \<open>undefined\<close> is not part of the request.
\<close>

definition cloneOptions :: "deps \<Rightarrow> interception_options \<Rightarrow> container_info \<Rightarrow> error + create_options" where
  "cloneOptions deps opts containerDetails =
     (let networkDetails = ci_Networks containerDetails;
          networkNames = object_keys networkDetails
      in case envArrayToObject (cfg_Env (ci_Config containerDetails)) of
           Inl err \<Rightarrow> Inl err
         | Inr currentEnv \<Rightarrow> Inr
             \<lparr>co_name = ci_Name containerDetails,
              co_Image = cfg_Image (ci_Config containerDetails),
              co_Env = cfg_Env (ci_Config containerDetails) @
                 envObjectToArray
                   (getTerminalEnvVars deps (io_proxyPort opts) HTTP_TOOLKIT_INJECTED_CA_PATH currentEnv
                      \<lparr>httpToolkitIp = ''172.17.0.1'',
                       overridePath = HTTP_TOOLKIT_INJECTED_OVERRIDES_PATH,
                       targetPlatform = ''linux''\<rparr>),
              co_Labels = cfg_Labels (ci_Config containerDetails),
              co_Other = cfg_Other (ci_Config containerDetails),
              co_HostConfig =
                (if io_interceptionType opts = Mount
                 then (ci_HostConfig containerDetails)
                   \<lparr>hc_Binds := Some
                      ((case hc_Binds (ci_HostConfig containerDetails) of None \<Rightarrow> [] | Some binds \<Rightarrow> binds) @
                       [io_certPath opts @ '':'' @ HTTP_TOOLKIT_INJECTED_CA_PATH @ '':ro'',
                        OVERRIDES_DIR deps @ '':'' @ HTTP_TOOLKIT_INJECTED_OVERRIDES_PATH @ '':ro''])\<rparr>
                 else ci_HostConfig containerDetails),
              co_EndpointsConfig = Some
                (if length networkNames > 1
                 then (case js_get networkDetails (networkNames ! 0) of
                         None \<Rightarrow> []
                       | Some endpoint \<Rightarrow> [(networkNames ! 0, endpoint)])
                 else networkDetails)\<rparr>)"

definition restartAndInjectContainer ::
  "deps \<Rightarrow> 's engine \<Rightarrow> string \<Rightarrow> interception_options \<Rightarrow> ('s, unit) io"
where
  "restartAndInjectContainer deps docker containerId opts =
     await (container_inspect docker containerId) (\<lambda>containerDetails.
     await (container_stop docker containerId 1) (\<lambda>_.
     await (catch (container_remove docker containerId)
              (\<lambda>e. if (case e of EngineError err \<Rightarrow> statusCode err \<in> set [Some 409, Some 404, Some 304]
                               | _ \<Rightarrow> False)
                    then resolve () else reject e)) (\<lambda>_.
     let networkDetails = ci_Networks containerDetails;
         networkNames = object_keys networkDetails
     in
     await (settled (cloneOptions deps opts containerDetails)) (\<lambda>options.
     await (createContainer docker options) (\<lambda>newContainer.
     await (if length networkNames > 1
            then promise_all
              (map (\<lambda>networkName.
                      network_connect docker (Some networkName)
                        \<lparr>cn_Container = newContainer,
                         cn_EndpointConfig = js_get networkDetails networkName\<rparr>)
                 (array_keys (slice_from networkNames 1)))
            else resolve []) (\<lambda>_.
     await (if io_interceptionType opts = Inject
            then putArchive docker newContainer
                   (packInterceptionFiles (overridesDirFiles deps) (io_certContent opts)) ''/''
            else resolve ()) (\<lambda>_.
     container_start docker newContainer)))))))"

section \<open>Tunnel container\<close>

definition DOCKER_TUNNEL_IMAGE :: string where
  "DOCKER_TUNNEL_IMAGE = ''httptoolkit/docker-socks-tunnel:v1.1.0''"

definition DOCKER_TUNNEL_LABEL :: string where
  "DOCKER_TUNNEL_LABEL = ''tech.httptoolkit.docker.tunnel''"

definition getDockerTunnelContainerName :: "nat \<Rightarrow> string" where
  "getDockerTunnelContainerName proxyPort = ''httptoolkit-docker-tunnel-'' @ string_of_nat proxyPort"

text \<open>\<open>([builtinBridge]) => builtinBridge?.IPAM?.Config?.[0].Gateway\<close>\<close>

definition bridgeGateway :: "network_info list \<Rightarrow> error + string option" where
  "bridgeGateway networks =
     (case networks of
        [] \<Rightarrow> Inr None
      | builtinBridge # _ \<Rightarrow>
          (case ni_IPAM builtinBridge of
             None \<Rightarrow> Inr None
           | Some ipam \<Rightarrow>
               (case ipam_Config ipam of
                  None \<Rightarrow> Inr None
                | Some [] \<Rightarrow> Inl TypeError
                | Some (config # _) \<Rightarrow> Inr (ic_Gateway config))))"

text \<open>\<open>([builtinBridge]) => builtinBridge?.Id\<close>\<close>

definition bridgeId :: "network_info list \<Rightarrow> string option" where
  "bridgeId networks = (case networks of [] \<Rightarrow> None | builtinBridge # _ \<Rightarrow> Some (ni_Id builtinBridge))"

definition tunnelOptions :: "deps \<Rightarrow> nat \<Rightarrow> string \<Rightarrow> string option \<Rightarrow> create_options" where
  "tunnelOptions deps proxyPort engineVersion defaultBridgeGateway =
     \<lparr>co_name = getDockerTunnelContainerName proxyPort,
      co_Image = DOCKER_TUNNEL_IMAGE,
      co_Env = [],
      co_Labels = [(DOCKER_TUNNEL_LABEL, string_of_nat proxyPort)],
      co_Other = [],
      co_HostConfig =
        \<lparr>hc_Binds = None,
         hc_AutoRemove = True,
         hc_ExtraHosts =
           (if platformIsLinux deps
            then Some [DOCKER_HOST_HOSTNAME deps @ '':'' @
                   (if satisfies_20_10 deps engineVersion then ''host-gateway''
                    else (case defaultBridgeGateway of
                            None \<Rightarrow> ''172.17.0.1''
                          | Some gateway \<Rightarrow> if gateway = [] then ''172.17.0.1'' else gateway))]
            else None),
         hc_PortBindings = [(''1080/tcp'', [\<lparr>pb_HostIp = ''127.0.0.1'', pb_HostPort = None\<rparr>])],
         hc_Other = []\<rparr>,
      co_EndpointsConfig = None\<rparr>"

definition ensureDockerTunnelRunning :: "deps \<Rightarrow> 's engine \<Rightarrow> nat \<Rightarrow> ('s, unit) io" where
  "ensureDockerTunnelRunning deps docker proxyPort =
     runExclusive
       (await (catch (await (image_inspect docker DOCKER_TUNNEL_IMAGE) (\<lambda>_. resolve True))
                 (\<lambda>_. resolve False)) (\<lambda>imagePresent.
        await (if \<not> imagePresent then pull docker DOCKER_TUNNEL_IMAGE else resolve ()) (\<lambda>_.
        let containerName = getDockerTunnelContainerName proxyPort in
        await (catch (await (container_inspect docker containerName) (\<lambda>info. resolve (Some info)))
                 (\<lambda>_. resolve None)) (\<lambda>found.
        await (case found of
                 Some container \<Rightarrow> resolve container
               | None \<Rightarrow>
                   await (version docker) (\<lambda>engineVersion.
                   await (await (listNetworks docker) (\<lambda>networks. settled (bridgeGateway networks)))
                     (\<lambda>defaultBridgeGateway.
                   await (createContainer docker
                            (tunnelOptions deps proxyPort engineVersion defaultBridgeGateway)) (\<lambda>_.
                   container_inspect docker containerName)))) (\<lambda>container.
        if \<not> ci_Running container then container_start docker (ci_Id container)
        else resolve ())))))"


definition getDockerTunnelPort :: "deps \<Rightarrow> 's engine \<Rightarrow> nat \<Rightarrow> ('s, js_number) io" where
  "getDockerTunnelPort deps docker proxyPort =
     (let containerName = getDockerTunnelContainerName proxyPort in
      await (catch (await (container_inspect docker containerName) (\<lambda>info. resolve (Some info)))
               (\<lambda>_. resolve None)) (\<lambda>found.
      await (case found of
               Some container \<Rightarrow> resolve container
             | None \<Rightarrow>
                 await (ensureDockerTunnelRunning deps docker proxyPort) (\<lambda>_.
                 container_inspect docker containerName)) (\<lambda>container.
      let portMappings = js_get (ci_Ports container) ''1080/tcp'';
          localPort = (case portMappings of
                         Some (Some mappings) \<Rightarrow> find (\<lambda>m. pb_HostIp m = ''127.0.0.1'') mappings
                       | _ \<Rightarrow> None)
      in case localPort of
           None \<Rightarrow> reject (Error ''No port mapped for Docker tunnel'')
         | Some mapping \<Rightarrow>
             resolve (case pb_HostPort mapping of None \<Rightarrow> NaN | Some port \<Rightarrow> parseInt port 10))))"

datatype proxy_selector = AllProxies | ProxyPort nat

text \<open>The callback that \<open>stopDockerTunnel\<close> hands to \<open>containerMutex.runExclusive\<close>.\<close>

definition stopDockerTunnel_locked :: "'s engine \<Rightarrow> proxy_selector \<Rightarrow> ('s, unit) io" where
  "stopDockerTunnel_locked docker proxyPort =
     await (listContainers docker
              (case proxyPort of
                 AllProxies \<Rightarrow> DOCKER_TUNNEL_LABEL
               | ProxyPort port \<Rightarrow> DOCKER_TUNNEL_LABEL @ ''='' @ string_of_nat port)) (\<lambda>containers.
     await (promise_all_async
              (map (\<lambda>containerId.
                      (catch (container_kill docker containerId) (\<lambda>_. resolve ()), \<lambda>_.
                       catch (container_remove docker containerId) (\<lambda>_. resolve ())))
                 containers)) (\<lambda>_.
     resolve ()))"

text \<open>
  \<open>stopDockerTunnel\<close> calls \<open>runExclusive\<close> without \<open>await\<close> and without returning its
  promise. The function's own promise therefore resolves as soon as that call has been
  made, and the locked block runs later, on its own. The result has three parts: how the
  function's promise settles, the world at that moment, and the computations that were
  started but are awaited by nobody.
\<close>

definition stopDockerTunnel ::
  "'s engine \<Rightarrow> proxy_selector \<Rightarrow> 's world \<Rightarrow> (error + unit) \<times> 's world \<times> ('s, unit) io list"
where
  "stopDockerTunnel docker proxyPort w =
     (Inr (), w, [runExclusive (stopDockerTunnel_locked docker proxyPort)])"

text \<open>
  The computations nobody awaits run to their end after the caller has its answer; how
  they settle reaches no one.
\<close>

definition run_detached :: "('s, unit) io list \<Rightarrow> 's world \<Rightarrow> 's world" where
  "run_detached jobs w = foldl (\<lambda>w' job. snd (job w')) w jobs"

section \<open>Reading a run\<close>

text \<open>The error of a request that the engine rejected.\<close>

definition event_error :: "event \<Rightarrow> engine_error option" where
  "event_error ev =
     (case ev of
        EvInspectContainer _ a \<Rightarrow> (case a of Inl e \<Rightarrow> Some e | Inr _ \<Rightarrow> None)
      | EvStop _ _ a \<Rightarrow> (case a of Inl e \<Rightarrow> Some e | Inr _ \<Rightarrow> None)
      | EvRemove _ a \<Rightarrow> (case a of Inl e \<Rightarrow> Some e | Inr _ \<Rightarrow> None)
      | EvKill _ a \<Rightarrow> (case a of Inl e \<Rightarrow> Some e | Inr _ \<Rightarrow> None)
      | EvStart _ a \<Rightarrow> (case a of Inl e \<Rightarrow> Some e | Inr _ \<Rightarrow> None)
      | EvCreateContainer _ a \<Rightarrow> (case a of Inl e \<Rightarrow> Some e | Inr _ \<Rightarrow> None)
      | EvPutArchive _ _ _ a \<Rightarrow> (case a of Inl e \<Rightarrow> Some e | Inr _ \<Rightarrow> None)
      | EvConnect _ _ a \<Rightarrow> (case a of Inl e \<Rightarrow> Some e | Inr _ \<Rightarrow> None)
      | EvDisconnect _ _ a \<Rightarrow> (case a of Inl e \<Rightarrow> Some e | Inr _ \<Rightarrow> None)
      | EvInspectImage _ a \<Rightarrow> (case a of Inl e \<Rightarrow> Some e | Inr _ \<Rightarrow> None)
      | EvPull _ a \<Rightarrow> (case a of Inl e \<Rightarrow> Some e | Inr _ \<Rightarrow> None)
      | EvVersion a \<Rightarrow> (case a of Inl e \<Rightarrow> Some e | Inr _ \<Rightarrow> None)
      | EvListNetworks a \<Rightarrow> (case a of Inl e \<Rightarrow> Some e | Inr _ \<Rightarrow> None)
      | EvListContainers _ a \<Rightarrow> (case a of Inl e \<Rightarrow> Some e | Inr _ \<Rightarrow> None))"

text \<open>
  The request at which a run stopped with an error: the engine rejected that request, or
  it was the query for the builtin bridge and reading the gateway off its answer threw.
\<close>

definition stopped_at :: "error \<Rightarrow> event \<Rightarrow> bool" where
  "stopped_at err ev =
     (case event_error ev of
        Some e \<Rightarrow> err = EngineError e
      | None \<Rightarrow> (case ev of EvListNetworks (Inr nets) \<Rightarrow> bridgeGateway nets = Inl err | _ \<Rightarrow> False))"

text \<open>The statuses that \<open>restartAndInjectContainer\<close> accepts from \<open>remove()\<close>.\<close>

definition tolerated_status :: "engine_error \<Rightarrow> bool" where
  "tolerated_status e = (statusCode e \<in> {Some 409, Some 404, Some 304})"

definition remove_passed :: "engine_error + unit \<Rightarrow> bool" where
  "remove_passed a = (case a of Inl e \<Rightarrow> tolerated_status e | Inr _ \<Rightarrow> True)"

text \<open>
  The connect requests of \<open>restartAndInjectContainer\<close> for a snapshot, the new container's
  id and the engine's answers: one request per key of the array \<open>networkNames.slice(1)\<close>.
\<close>

definition connect_events :: "container_info \<Rightarrow> string \<Rightarrow> (engine_error + unit) list \<Rightarrow> event list" where
  "connect_events details newContainer answers =
     map (\<lambda>(networkName, a). EvConnect (Some networkName)
            \<lparr>cn_Container = newContainer,
             cn_EndpointConfig = js_get (ci_Networks details) networkName\<rparr> a)
       (zip (array_keys (slice_from (object_keys (ci_Networks details)) 1)) answers)"

text \<open>Kinds of requests.\<close>

definition is_create :: "event \<Rightarrow> bool" where
  "is_create ev = (case ev of EvCreateContainer _ _ \<Rightarrow> True | _ \<Rightarrow> False)"

definition is_start :: "event \<Rightarrow> bool" where
  "is_start ev = (case ev of EvStart _ _ \<Rightarrow> True | _ \<Rightarrow> False)"

definition is_container_inspect :: "event \<Rightarrow> bool" where
  "is_container_inspect ev = (case ev of EvInspectContainer _ _ \<Rightarrow> True | _ \<Rightarrow> False)"

definition is_network_call :: "event \<Rightarrow> bool" where
  "is_network_call ev =
     (case ev of EvConnect _ _ _ \<Rightarrow> True | EvDisconnect _ _ _ \<Rightarrow> True | _ \<Rightarrow> False)"


definition tunnel_port_mappings :: "container_info \<Rightarrow> port_binding list" where
  "tunnel_port_mappings container =
     (case js_get (ci_Ports container) ''1080/tcp'' of Some (Some mappings) \<Rightarrow> mappings | _ \<Rightarrow> [])"






text \<open>The label filter \<open>stopDockerTunnel\<close> gives to \<open>listContainers\<close>.\<close>

definition teardown_label :: "proxy_selector \<Rightarrow> string" where
  "teardown_label proxyPort =
     (case proxyPort of
        AllProxies \<Rightarrow> DOCKER_TUNNEL_LABEL
      | ProxyPort port \<Rightarrow> DOCKER_TUNNEL_LABEL @ ''='' @ string_of_nat port)"

text \<open>
  The kill and remove requests for listed containers, with the engine's two answers each:
  the kill requests of all containers come first, then the remove requests.
\<close>

definition teardown_events ::
  "string list \<Rightarrow> ((engine_error + unit) \<times> (engine_error + unit)) list \<Rightarrow> event list"
where
  "teardown_events containers answers =
     map (\<lambda>(containerId, killed, removed). EvKill containerId killed) (zip containers answers) @
     map (\<lambda>(containerId, killed, removed). EvRemove containerId removed) (zip containers answers)"

section \<open>Example inputs\<close>

text \<open>An overrides directory with one file in one subdirectory, as tar-fs reads it.\<close>

definition example_overrides :: "(tar_header \<times> string) list" where
  "example_overrides =
     [(\<lparr>h_name = ''.'', h_mode = Some (Number 493), h_uid = Some 1000, h_gid = Some 1000,
        h_type = Some Directory\<rparr>, []),
      (\<lparr>h_name = ''path/curl'', h_mode = Some (Number 509), h_uid = Some 1000, h_gid = Some 1000,
        h_type = Some File\<rparr>, ''#!/bin/sh'')]"

text \<open>
  A container snapshot with a given env list and given networks, the collaborators of a
  Linux host, and the options of an interception in inject mode.
\<close>

definition example_endpoint :: "string \<Rightarrow> string \<Rightarrow> endpoint_settings" where
  "example_endpoint networkId address =
     \<lparr>es_NetworkID = networkId, es_IPAddress = address, es_Aliases = []\<rparr>"

definition example_container :: "string list \<Rightarrow> endpoint_settings js_object \<Rightarrow> container_info" where
  "example_container env networks =
     \<lparr>ci_Id = ''c0ffee'', ci_Name = ''/app'',
      ci_Config = \<lparr>cfg_Image = ''node:16'', cfg_Env = env, cfg_Labels = [], cfg_Other = []\<rparr>,
      ci_HostConfig = \<lparr>hc_Binds = None, hc_AutoRemove = False, hc_ExtraHosts = None,
                       hc_PortBindings = [], hc_Other = []\<rparr>,
      ci_Networks = networks, ci_Ports = [], ci_Running = True\<rparr>"

definition example_deps :: deps where
  "example_deps =
     \<lparr>OVERRIDES_DIR = ''/opt/overrides'',
      overridesDirFiles = example_overrides,
      getTerminalEnvVars = (\<lambda>port certPath env ctx. [(''SSL_CERT_FILE'', certPath)]),
      DOCKER_HOST_HOSTNAME = ''host.docker.internal'',
      platformIsLinux = True,
      satisfies_20_10 = (\<lambda>v. v = ''20.10.7'')\<rparr>"

definition example_options :: interception_options where
  "example_options =
     \<lparr>io_interceptionType = Inject, io_proxyPort = 8000, io_certContent = ''CERT'',
      io_certPath = ''/tmp/ca.pem''\<rparr>"

text \<open>
  An engine without a state of its own: it answers every inspect with the same snapshot
  and every remove with the same answer, knows the networks of a given list and answers
  404 to a connect request for any other, and accepts every other request.
\<close>

definition fixed_engine :: "container_info \<Rightarrow> engine_error + unit \<Rightarrow> string list \<Rightarrow> unit engine" where
  "fixed_engine details removeAnswer networks =
     \<lparr>e_inspectContainer = (\<lambda>c s. (Inr details, s)),
      e_stop = (\<lambda>c t s. (Inr (), s)),
      e_remove = (\<lambda>c s. (removeAnswer, s)),
      e_kill = (\<lambda>c s. (Inr (), s)),
      e_start = (\<lambda>c s. (Inr (), s)),
      e_createContainer = (\<lambda>options s. (Inr ''new-container'', s)),
      e_putArchive = (\<lambda>c archive path s. (Inr (), s)),
      e_connect = (\<lambda>n options s.
         (if n \<in> set (map Some networks) then Inr () else Inl (EngineFailure (Some 404)), s)),
      e_disconnect = (\<lambda>n c s. (Inr (), s)),
      e_inspectImage = (\<lambda>img s. (Inr (), s)),
      e_pull = (\<lambda>img s. (Inr (), s)),
      e_version = (\<lambda>s. (Inr ''20.10.7'', s)),
      e_listNetworks = (\<lambda>s. (Inr [], s)),
      e_listContainers = (\<lambda>label s. (Inr [], s))\<rparr>"

definition fresh_world :: "'s \<Rightarrow> 's world" where
  "fresh_world s = \<lparr>est = s, events = []\<rparr>"

text \<open>
  A small engine with a state: whether the tunnel image is present, and the one container
  it holds, if any. Creating stores a stopped container without networks; starting it
  publishes port 1080 on the loopback address; connecting and disconnecting edit its
  networks; killing or removing it empties the engine. The builtin bridge is a parameter.
\<close>

record tunnel_state =
  ts_imagePresent :: bool
  ts_container :: "container_info option"

definition not_found :: engine_error where
  "not_found = EngineFailure (Some 404)"

definition tunnel_engine :: "network_info list \<Rightarrow> tunnel_state engine" where
  "tunnel_engine bridges =
     \<lparr>e_inspectContainer = (\<lambda>n s.
         (case ts_container s of
            None \<Rightarrow> Inl not_found
          | Some c \<Rightarrow> if ci_Name c = n then Inr c else Inl not_found, s)),
      e_stop = (\<lambda>c t s. (Inr (), s)),
      e_remove = (\<lambda>c s. (Inr (), s\<lparr>ts_container := None\<rparr>)),
      e_kill = (\<lambda>c s. (Inr (), s\<lparr>ts_container := None\<rparr>)),
      e_start = (\<lambda>i s.
         (case ts_container s of
            None \<Rightarrow> (Inl not_found, s)
          | Some c \<Rightarrow> (Inr (), s\<lparr>ts_container := Some (c
              \<lparr>ci_Running := True,
               ci_Ports := [(''1080/tcp'',
                  Some [\<lparr>pb_HostIp = ''127.0.0.1'', pb_HostPort = Some ''49153''\<rparr>])]\<rparr>)\<rparr>))),
      e_createContainer = (\<lambda>options s.
         (Inr ''tunnel-id'', s\<lparr>ts_container := Some
            \<lparr>ci_Id = ''tunnel-id'', ci_Name = co_name options,
             ci_Config = \<lparr>cfg_Image = co_Image options, cfg_Env = co_Env options,
                          cfg_Labels = co_Labels options, cfg_Other = co_Other options\<rparr>,
             ci_HostConfig = co_HostConfig options,
             ci_Networks = [], ci_Ports = [], ci_Running = False\<rparr>\<rparr>)),
      e_putArchive = (\<lambda>c archive path s. (Inr (), s)),
      e_connect = (\<lambda>n options s.
         (case (n, ts_container s) of
            (Some network, Some c) \<Rightarrow>
              (Inr (), s\<lparr>ts_container := Some (c
                 \<lparr>ci_Networks := ci_Networks c @
                    [(network, \<lparr>es_NetworkID = network, es_IPAddress = [], es_Aliases = []\<rparr>)]\<rparr>)\<rparr>)
          | _ \<Rightarrow> (Inl not_found, s))),
      e_disconnect = (\<lambda>n i s.
         (case ts_container s of
            None \<Rightarrow> (Inl not_found, s)
          | Some c \<Rightarrow> (Inr (), s\<lparr>ts_container := Some (c
              \<lparr>ci_Networks := filter (\<lambda>(k, endpoint). Some (es_NetworkID endpoint) \<noteq> n)
                                 (ci_Networks c)\<rparr>)\<rparr>))),
      e_inspectImage = (\<lambda>img s. (if ts_imagePresent s then Inr () else Inl not_found, s)),
      e_pull = (\<lambda>img s. (Inr (), s\<lparr>ts_imagePresent := True\<rparr>)),
      e_version = (\<lambda>s. (Inr ''20.10.7'', s)),
      e_listNetworks = (\<lambda>s. (Inr bridges, s)),
      e_listContainers = (\<lambda>label s.
         (Inr (case ts_container s of None \<Rightarrow> [] | Some c \<Rightarrow> [ci_Id c]), s))\<rparr>"

definition example_bridge :: network_info where
  "example_bridge =
     \<lparr>ni_Id = ''D'',
      ni_IPAM = Some \<lparr>ipam_Config = Some [\<lparr>ic_Gateway = Some ''172.17.0.1''\<rparr>]\<rparr>\<rparr>"

text \<open>The tunnel container of proxy port 8000, running and attached to the networks \<open>A\<close> and \<open>B\<close>.\<close>

definition example_tunnel :: container_info where
  "example_tunnel =
     \<lparr>ci_Id = ''tunnel-id'', ci_Name = ''httptoolkit-docker-tunnel-8000'',
      ci_Config = \<lparr>cfg_Image = ''httptoolkit/docker-socks-tunnel:v1.1.0'', cfg_Env = [],
                   cfg_Labels = [(''tech.httptoolkit.docker.tunnel'', ''8000'')], cfg_Other = []\<rparr>,
      ci_HostConfig = \<lparr>hc_Binds = None, hc_AutoRemove = True, hc_ExtraHosts = None,
                       hc_PortBindings = [], hc_Other = []\<rparr>,
      ci_Networks = [(''net-a'', example_endpoint ''A'' ''10.0.1.2''),
                     (''net-b'', example_endpoint ''B'' ''10.0.2.2'')],
      ci_Ports = [(''1080/tcp'',
         Some [\<lparr>pb_HostIp = ''127.0.0.1'', pb_HostPort = Some ''49153''\<rparr>])],
      ci_Running = True\<rparr>"

text \<open>
  The same engine with a tunnel that exits as soon as it is started: a container created
  with \<open>AutoRemove\<close> is then removed by the engine, another one is left stopped.
\<close>

definition exiting_engine :: "network_info list \<Rightarrow> tunnel_state engine" where
  "exiting_engine bridges =
     (tunnel_engine bridges)
       \<lparr>e_start := (\<lambda>i s.
          (case ts_container s of
             None \<Rightarrow> (Inl not_found, s)
           | Some c \<Rightarrow>
               (Inr (), s\<lparr>ts_container :=
                  (if hc_AutoRemove (ci_HostConfig c) then None else Some c)\<rparr>)))\<rparr>"

text \<open>The same engine when its image store cannot be read: every image inspect fails.\<close>

definition imageless_engine :: "network_info list \<Rightarrow> tunnel_state engine" where
  "imageless_engine bridges =
     (tunnel_engine bridges)
       \<lparr>e_inspectImage := (\<lambda>img s. (Inl (EngineFailure (Some 500)), s))\<rparr>"

text \<open>An engine that rejects every request with status 500.\<close>

definition broken_engine :: "unit engine" where
  "broken_engine =
     \<lparr>e_inspectContainer = (\<lambda>c s. (Inl (EngineFailure (Some 500)), s)),
      e_stop = (\<lambda>c t s. (Inl (EngineFailure (Some 500)), s)),
      e_remove = (\<lambda>c s. (Inl (EngineFailure (Some 500)), s)),
      e_kill = (\<lambda>c s. (Inl (EngineFailure (Some 500)), s)),
      e_start = (\<lambda>c s. (Inl (EngineFailure (Some 500)), s)),
      e_createContainer = (\<lambda>options s. (Inl (EngineFailure (Some 500)), s)),
      e_putArchive = (\<lambda>c archive path s. (Inl (EngineFailure (Some 500)), s)),
      e_connect = (\<lambda>n options s. (Inl (EngineFailure (Some 500)), s)),
      e_disconnect = (\<lambda>n c s. (Inl (EngineFailure (Some 500)), s)),
      e_inspectImage = (\<lambda>img s. (Inl (EngineFailure (Some 500)), s)),
      e_pull = (\<lambda>img s. (Inl (EngineFailure (Some 500)), s)),
      e_version = (\<lambda>s. (Inl (EngineFailure (Some 500)), s)),
      e_listNetworks = (\<lambda>s. (Inl (EngineFailure (Some 500)), s)),
      e_listContainers = (\<lambda>label s. (Inl (EngineFailure (Some 500)), s))\<rparr>"

section \<open>Properties of the env codec\<close>

declare string_of_nat.simps [simp del]


lemma split_at_first:
  assumes "c \<in> set e"
  shows "take (length (takeWhile (\<lambda>x. x \<noteq> c) e)) e = takeWhile (\<lambda>x. x \<noteq> c) e"
    and "drop (Suc (length (takeWhile (\<lambda>x. x \<noteq> c) e))) e = tl (dropWhile (\<lambda>x. x \<noteq> c) e)"
    and "e = takeWhile (\<lambda>x. x \<noteq> c) e @ c # tl (dropWhile (\<lambda>x. x \<noteq> c) e)"
proof -
  let ?k = "takeWhile (\<lambda>x. x \<noteq> c) e" and ?r = "dropWhile (\<lambda>x. x \<noteq> c) e"
  have e: "e = ?k @ ?r" by simp
  from assms have "?r \<noteq> []" by (simp add: dropWhile_eq_Nil_conv)
  moreover have "hd ?r = c" using hd_dropWhile [of "\<lambda>x. x \<noteq> c" e] calculation by simp
  ultimately have r: "?r = c # tl ?r" by (cases ?r) auto
  show "take (length ?k) e = ?k" by (metis append_eq_conv_conj e)
  show "drop (Suc (length ?k)) e = tl ?r"
    by (metis append_eq_conv_conj e drop_Suc tl_drop)
  show "e = ?k @ c # tl ?r" using e r by metis
qed

lemma envEntryToPair_ok:
  assumes "CHR ''='' \<in> set e"
  shows "envEntryToPair e = Inr (entry_key e, tl (dropWhile (\<lambda>c. c \<noteq> CHR ''='') e))"
  using assms split_at_first(1,2) [OF assms]
  by (simp add: envEntryToPair_def indexOf_def slice_def slice_from_def entry_key_def nat_add_distrib)

lemma envEntryToPair_fail:
  "CHR ''='' \<notin> set e \<Longrightarrow> envEntryToPair e = Inl (Error ''Env var without ='')"
  by (simp add: envEntryToPair_def indexOf_def)

lemma map_throwing_all_ok:
  "(\<And>x. x \<in> set xs \<Longrightarrow> f x = Inr (g x)) \<Longrightarrow> map_throwing f xs = Inr (map g xs)"
  by (induction xs) auto

lemma map_throwing_env_fail:
  "\<exists>e\<in>set l. CHR ''='' \<notin> set e \<Longrightarrow>
   map_throwing envEntryToPair l = Inl (Error ''Env var without ='')"
proof (induction l)
  case Nil
  then show ?case by simp
next
  case (Cons a l)
  show ?case
  proof (cases "CHR ''='' \<in> set a")
    case True
    with Cons have "map_throwing envEntryToPair l = Inl (Error ''Env var without ='')" by simp
    then show ?thesis using True by (simp add: envEntryToPair_ok)
  next
    case False
    then show ?thesis by (simp add: envEntryToPair_fail)
  qed
qed

lemma mset_insert_index: "mset (insert_index k v obj) = add_mset (k, v) (mset obj)"
  by (induction obj) auto

lemma mset_js_define: "mset (js_define obj k v) = add_mset (k, v) (mset obj)"
  by (simp add: js_define_def mset_insert_index)

lemma js_set_fresh:
  "k \<noteq> ''__proto__'' \<Longrightarrow> k \<notin> fst ` set obj \<Longrightarrow> mset (js_set obj k v) = add_mset (k, v) (mset obj)"
  by (simp add: js_set_def object_keys_def mset_js_define)

lemma foldl_js_set_fresh:
  "distinct (map fst ps) \<Longrightarrow> ''__proto__'' \<notin> fst ` set ps \<Longrightarrow> fst ` set ps \<inter> fst ` set acc = {} \<Longrightarrow>
   mset (foldl (\<lambda>result (k, v). js_set result k v) acc ps) = mset acc + mset ps"
proof (induction ps arbitrary: acc)
  case Nil
  then show ?case by simp
next
  case (Cons p ps)
  obtain k v where p: "p = (k, v)" by (cases p)
  from Cons.prems p have fresh: "k \<noteq> ''__proto__''" "k \<notin> fst ` set acc" by auto
  have m: "mset (js_set acc k v) = add_mset (k, v) (mset acc)" by (rule js_set_fresh [OF fresh])
  then have "set (js_set acc k v) = insert (k, v) (set acc)"
    by (metis set_mset_add_mset_insert set_mset_mset)
  with Cons.prems p have "fst ` set ps \<inter> fst ` set (js_set acc k v) = {}" by auto
  with Cons.prems have "mset (foldl (\<lambda>result (k, v). js_set result k v) (js_set acc k v) ps)
      = mset (js_set acc k v) + mset ps"
    by (intro Cons.IH) auto
  then show ?case using m p by simp
qed

lemma mset_fromPairs:
  "distinct (map fst ps) \<Longrightarrow> ''__proto__'' \<notin> fst ` set ps \<Longrightarrow> mset (fromPairs ps) = mset ps"
  using foldl_js_set_fresh [of ps "[]"] by (simp add: fromPairs_def)

lemma distinct_keys_fromPairs:
  assumes "distinct (map fst ps)" "''__proto__'' \<notin> fst ` set ps"
  shows "distinct (map fst (fromPairs ps))"
proof -
  have "mset (map fst (fromPairs ps)) = mset (map fst ps)"
    using mset_fromPairs [OF assms] by (metis mset_map)
  then show ?thesis using assms(1) by (metis mset_eq_imp_distinct_iff)
qed

lemma envObjectToArray_distinct:
  "distinct (map fst m) \<Longrightarrow> envObjectToArray m = map (\<lambda>(k, v). k @ ''='' @ v) m"
  by (auto simp: envObjectToArray_def object_keys_def js_get_def)

lemma render_split:
  "CHR ''='' \<in> set e \<Longrightarrow> entry_key e @ CHR ''='' # tl (dropWhile (\<lambda>c. c \<noteq> CHR ''='') e) = e"
  using split_at_first(3) [of "CHR ''=''" e] by (simp add: entry_key_def)

lemma split_render:
  "CHR ''='' \<notin> set k \<Longrightarrow> entry_key (k @ CHR ''='' # v) = k \<and> tl (dropWhile (\<lambda>c. c \<noteq> CHR ''='') (k @ CHR ''='' # v)) = v"
  by (simp add: entry_key_def takeWhile_append dropWhile_append)

lemma foldl_js_set_appends:
  "distinct (map fst ps) \<Longrightarrow> ''__proto__'' \<notin> fst ` set ps \<Longrightarrow>
   \<forall>k\<in>fst ` set ps. \<not> is_array_index k \<Longrightarrow> fst ` set ps \<inter> fst ` set acc = {} \<Longrightarrow>
   foldl (\<lambda>result (k, v). js_set result k v) acc ps = acc @ ps"
proof (induction ps arbitrary: acc)
  case Nil
  then show ?case by simp
next
  case (Cons p ps)
  obtain k v where p: "p = (k, v)" by (cases p)
  from Cons.prems p have "js_set acc k v = acc @ [(k, v)]"
    by (auto simp: js_set_def js_define_def object_keys_def)
  moreover from Cons.prems p have "fst ` set ps \<inter> fst ` set (acc @ [(k, v)]) = {}" by auto
  with Cons.prems have "foldl (\<lambda>result (k, v). js_set result k v) (acc @ [(k, v)]) ps
      = (acc @ [(k, v)]) @ ps"
    by (intro Cons.IH) auto
  ultimately show ?case using p by simp
qed

lemma fromPairs_keeps_order:
  "distinct (map fst ps) \<Longrightarrow> ''__proto__'' \<notin> fst ` set ps \<Longrightarrow>
   \<forall>k\<in>fst ` set ps. \<not> is_array_index k \<Longrightarrow> fromPairs ps = ps"
  using foldl_js_set_appends [of ps "[]"] by (simp add: fromPairs_def)

lemma envArrayToObject_ok:
  assumes "\<forall>e\<in>set l. CHR ''='' \<in> set e"
  shows "envArrayToObject l =
     Inr (fromPairs (map (\<lambda>e. (entry_key e, tl (dropWhile (\<lambda>c. c \<noteq> CHR ''='') e))) l))"
  using assms by (simp add: envArrayToObject_def map_throwing_all_ok envEntryToPair_ok)

lemma envArrayToObject_result:
  "if \<exists>e\<in>set l. CHR ''='' \<notin> set e
   then envArrayToObject l = Inl (Error ''Env var without ='')
   else \<exists>pairs. envArrayToObject l = Inr (fromPairs pairs)
          \<and> list_all2 (\<lambda>e (k, v). e = k @ ''='' @ v \<and> CHR ''='' \<notin> set k) l pairs"
proof (cases "\<exists>e\<in>set l. CHR ''='' \<notin> set e")
  case True
  then show ?thesis by (simp add: envArrayToObject_def map_throwing_env_fail)
next
  case False
  then have all: "\<forall>e\<in>set l. CHR ''='' \<in> set e" by simp
  let ?pairs = "map (\<lambda>e. (entry_key e, tl (dropWhile (\<lambda>c. c \<noteq> CHR ''='') e))) l"
  have "list_all2 (\<lambda>e (k, v). e = k @ ''='' @ v \<and> CHR ''='' \<notin> set k) l ?pairs"
    using all by (auto simp: list_all2_map2 render_split intro!: list.rel_refl_strong dest: set_takeWhileD simp: entry_key_def [symmetric]) (auto simp: entry_key_def dest: set_takeWhileD)
  with envArrayToObject_ok [OF all] False show ?thesis by auto
qed

text \<open>
  Claim C7. \<open>envArrayToObject\<close> fails, with the error \<open>Env var without =\<close>, exactly when
  some entry has no \<open>=\<close>. Otherwise every entry is cut at its first \<open>=\<close>: the key is the
  text before it and holds no \<open>=\<close>, the value is all the text after it, so a value may
  hold further \<open>=\<close> signs; the object is built from these pairs. The list \<open>["NOEQUALS"]\<close>
  fails, and \<open>"A=b=c"\<close> gives the value \<open>b=c\<close>.
\<close>

theorem envArrayToObject_splits_at_first_equals:
  "(if \<exists>e\<in>set l. CHR ''='' \<notin> set e
    then envArrayToObject l = Inl (Error ''Env var without ='')
    else \<exists>pairs. envArrayToObject l = Inr (fromPairs pairs)
           \<and> list_all2 (\<lambda>e (k, v). e = k @ ''='' @ v \<and> CHR ''='' \<notin> set k) l pairs)
   \<and> (isl (envArrayToObject l) \<longleftrightarrow> (\<exists>e\<in>set l. CHR ''='' \<notin> set e))
   \<and> envArrayToObject [''NOEQUALS''] = Inl (Error ''Env var without ='')
   \<and> envArrayToObject [''A=b=c''] = Inr [(''A'', ''b=c'')]"
proof (intro conjI)
  show "isl (envArrayToObject l) \<longleftrightarrow> (\<exists>e\<in>set l. CHR ''='' \<notin> set e)"
    using envArrayToObject_result [of l] by (auto split: if_splits)
  show "if \<exists>e\<in>set l. CHR ''='' \<notin> set e
    then envArrayToObject l = Inl (Error ''Env var without ='')
    else \<exists>pairs. envArrayToObject l = Inr (fromPairs pairs)
           \<and> list_all2 (\<lambda>e (k, v). e = k @ ''='' @ v \<and> CHR ''='' \<notin> set k) l pairs"
    by (rule envArrayToObject_result)
  show "envArrayToObject [''NOEQUALS''] = Inl (Error ''Env var without ='')"
    by (simp add: envArrayToObject_def envEntryToPair_def indexOf_def)
  show "envArrayToObject [''A=b=c''] = Inr [(''A'', ''b=c'')]"
    by (simp add: envArrayToObject_def envEntryToPair_def indexOf_def slice_def slice_from_def
        fromPairs_def js_set_def js_define_def is_array_index_def is_digit_def object_keys_def)
qed

theorem envArrayToObject_splits_at_first_equals_witness:
  "envArrayToObject [''PATH=/bin'', ''OPTS=a=b''] = Inr [(''PATH'', ''/bin''), (''OPTS'', ''a=b'')]
   \<and> envArrayToObject [''PATH=/bin'', ''NOEQUALS''] = Inl (Error ''Env var without ='')"
  using envArrayToObject_splits_at_first_equals [of "[''PATH=/bin'', ''OPTS=a=b'']"]
    envArrayToObject_splits_at_first_equals [of "[''PATH=/bin'', ''NOEQUALS'']"]
  by (simp add: envArrayToObject_def envEntryToPair_def indexOf_def slice_def slice_from_def
        fromPairs_def js_set_def js_define_def is_array_index_def is_digit_def object_keys_def)

text \<open>
  Claim C6, as amended. For an object with distinct keys, none of which holds \<open>=\<close> or is
  \<open>__proto__\<close>, turning it into a list and back gives an object with the same keys and
  values. For a list whose entries all hold \<open>=\<close>, with distinct keys and no key
  \<open>__proto__\<close>, turning it into an object and back gives the same strings, each once;
  they come in the same order when no key is an array index.
\<close>

theorem env_codec_round_trip:
  "(distinct (map fst m) \<and> (\<forall>k\<in>set (map fst m). CHR ''='' \<notin> set k \<and> k \<noteq> ''__proto__'')
      \<longrightarrow> (\<exists>m'. envArrayToObject (envObjectToArray m) = Inr m'
            \<and> map_of m' = map_of m \<and> distinct (map fst m')))
   \<and> ((\<forall>e\<in>set l. CHR ''='' \<in> set e) \<and> distinct (map entry_key l)
        \<and> ''__proto__'' \<notin> set (map entry_key l)
      \<longrightarrow> (\<exists>obj. envArrayToObject l = Inr obj \<and> mset (envObjectToArray obj) = mset l))
   \<and> ((\<forall>e\<in>set l. CHR ''='' \<in> set e) \<and> distinct (map entry_key l)
        \<and> ''__proto__'' \<notin> set (map entry_key l)
        \<and> (\<forall>e\<in>set l. \<not> is_array_index (entry_key e))
      \<longrightarrow> (\<exists>obj. envArrayToObject l = Inr obj \<and> envObjectToArray obj = l))"
proof (intro conjI impI)
  assume a: "distinct (map fst m) \<and> (\<forall>k\<in>set (map fst m). CHR ''='' \<notin> set k \<and> k \<noteq> ''__proto__'')"
  let ?l = "envObjectToArray m"
  have l: "?l = map (\<lambda>(k, v). k @ ''='' @ v) m" using a by (simp add: envObjectToArray_distinct)
  have all: "\<forall>e\<in>set ?l. CHR ''='' \<in> set e" unfolding l by auto
  have "map (\<lambda>e. (entry_key e, tl (dropWhile (\<lambda>c. c \<noteq> CHR ''='') e))) ?l = m"
    unfolding l using a by (auto simp: split_render intro!: map_idI)
  with envArrayToObject_ok [OF all] have r: "envArrayToObject ?l = Inr (fromPairs m)" by simp
  from a have np: "''__proto__'' \<notin> fst ` set m" by auto
  have d: "distinct (map fst (fromPairs m))" using a np by (simp add: distinct_keys_fromPairs)
  have "set (fromPairs m) = set m" using mset_fromPairs [of m] a np by (metis set_mset_mset)
  then have "map_of (fromPairs m) = map_of m" using d a by (simp add: map_of_inject_set)
  with r d show "\<exists>m'. envArrayToObject ?l = Inr m' \<and> map_of m' = map_of m \<and> distinct (map fst m')"
    by simp
next
  assume a: "(\<forall>e\<in>set l. CHR ''='' \<in> set e) \<and> distinct (map entry_key l)
        \<and> ''__proto__'' \<notin> set (map entry_key l)"
  let ?ps = "map (\<lambda>e. (entry_key e, tl (dropWhile (\<lambda>c. c \<noteq> CHR ''='') e))) l"
  have r: "envArrayToObject l = Inr (fromPairs ?ps)" using a envArrayToObject_ok by simp
  have k: "map fst ?ps = map entry_key l" by simp
  have dk: "distinct (map fst ?ps)" using a by (simp add: comp_def)
  have np: "''__proto__'' \<notin> fst ` set ?ps" using a by (auto simp: image_iff)
  have ms: "mset (fromPairs ?ps) = mset ?ps" using dk np by (rule mset_fromPairs)
  have "distinct (map fst (fromPairs ?ps))" using dk np by (rule distinct_keys_fromPairs)
  then have "mset (envObjectToArray (fromPairs ?ps))
      = image_mset (\<lambda>(k, v). k @ ''='' @ v) (mset (fromPairs ?ps))"
    by (simp add: envObjectToArray_distinct)
  also have "\<dots> = mset (map (\<lambda>(k, v). k @ ''='' @ v) ?ps)" unfolding ms by (rule mset_map [symmetric])
  also have "map (\<lambda>(k, v). k @ ''='' @ v) ?ps = l"
    using a by (auto simp: render_split intro!: map_idI)
  finally show "\<exists>obj. envArrayToObject l = Inr obj \<and> mset (envObjectToArray obj) = mset l"
    using r by simp
next
  assume a: "(\<forall>e\<in>set l. CHR ''='' \<in> set e) \<and> distinct (map entry_key l)
        \<and> ''__proto__'' \<notin> set (map entry_key l)
        \<and> (\<forall>e\<in>set l. \<not> is_array_index (entry_key e))"
  let ?ps = "map (\<lambda>e. (entry_key e, tl (dropWhile (\<lambda>c. c \<noteq> CHR ''='') e))) l"
  have r: "envArrayToObject l = Inr (fromPairs ?ps)" using a envArrayToObject_ok by simp
  have dk: "distinct (map fst ?ps)" using a by (simp add: comp_def)
  have np: "''__proto__'' \<notin> fst ` set ?ps" using a by (auto simp: image_iff)
  have ni: "\<forall>k\<in>fst ` set ?ps. \<not> is_array_index k" using a by auto
  have f: "fromPairs ?ps = ?ps" using dk np ni by (rule fromPairs_keeps_order)
  have "envObjectToArray ?ps = map (\<lambda>(k, v). k @ ''='' @ v) ?ps"
    using dk by (rule envObjectToArray_distinct)
  also have "\<dots> = l" using a by (auto simp: render_split intro!: map_idI)
  finally show "\<exists>obj. envArrayToObject l = Inr obj \<and> envObjectToArray obj = l"
    using r f by simp
qed

text \<open>
  Claim C6 as stated fails on the key \<open>__proto__\<close>: the assignment in \<open>_.fromPairs\<close>
  creates no property for it, so the entry is lost in both directions.
\<close>

theorem env_codec_round_trip_counterexample:
  "map_sum id envObjectToArray (envArrayToObject [''__proto__=x'']) = Inr []
   \<and> envArrayToObject (envObjectToArray [(''__proto__'', ''x'')]) = Inr []"
  by (simp add: envArrayToObject_def envEntryToPair_def indexOf_def slice_def slice_from_def
        fromPairs_def js_set_def envObjectToArray_def object_keys_def js_get_def)

theorem env_codec_round_trip_witness:
  "envArrayToObject (envObjectToArray [(''A'', ''1''), (''B'', ''x=y'')]) = Inr [(''A'', ''1''), (''B'', ''x=y'')]
   \<and> map_sum id envObjectToArray (envArrayToObject [''B=x=y'', ''7=q'', ''A=1'']) = Inr [''7=q'', ''B=x=y'', ''A=1'']
   \<and> map_sum id envObjectToArray (envArrayToObject [''B=x=y'', ''A=1'']) = Inr [''B=x=y'', ''A=1'']"
  using env_codec_round_trip [of "[(''A'', ''1''), (''B'', ''x=y'')]" "[''B=x=y'', ''7=q'', ''A=1'']"]
    env_codec_round_trip [of "[(''A'', ''1''), (''B'', ''x=y'')]" "[''B=x=y'', ''A=1'']"]
  by (simp add: envArrayToObject_def envEntryToPair_def indexOf_def slice_def slice_from_def
        fromPairs_def js_set_def js_define_def is_array_index_def is_digit_def digits_value_def digit_val_def
        envObjectToArray_def object_keys_def js_get_def)

section \<open>Properties of the archive packer\<close>

lemma overrides_path: "HTTP_TOOLKIT_INJECTED_OVERRIDES_PATH = ''/http-toolkit-injections/overrides''"
  by (simp add: HTTP_TOOLKIT_INJECTED_OVERRIDES_PATH_def HTTP_TOOLKIT_INJECTED_PATH_def posix_join_def
      posix_normalize_def normalizeString_def normalize_step_def)

lemma ca_path: "HTTP_TOOLKIT_INJECTED_CA_PATH = ''/http-toolkit-injections/ca.pem''"
  by (simp add: HTTP_TOOLKIT_INJECTED_CA_PATH_def HTTP_TOOLKIT_INJECTED_PATH_def posix_join_def
      posix_normalize_def normalizeString_def normalize_step_def)

lemma split_on_not_Nil: "split_on c s \<noteq> []"
  by (induction s) (auto split: list.splits)

lemma split_on_append: "split_on c (a @ c # b) = split_on c a @ split_on c b"
proof (induction a)
  case Nil
  then show ?case by simp
next
  case (Cons x a)
  then show ?case using split_on_not_Nil [of c a] by (cases "split_on c a") auto
qed

lemma foldl_normalize_step_no_dotdot:
  "''..'' \<notin> set segs \<Longrightarrow>
   foldl (normalize_step allow) st segs = st @ filter (\<lambda>s. s \<noteq> [] \<and> s \<noteq> ''.'') segs"
  by (induction segs arbitrary: st) (auto simp: normalize_step_def)

lemma join_with_slash_append:
  "xs \<noteq> [] \<Longrightarrow> ys \<noteq> [] \<Longrightarrow> join_with_slash (xs @ ys) = join_with_slash xs @ ''/'' @ join_with_slash ys"
proof (induction xs rule: join_with_slash.induct)
  case 1
  then show ?case by simp
next
  case (2 s)
  then show ?case by (cases ys) auto
next
  case (3 s t ss)
  then show ?case by simp
qed

lemma prefix_join_with_slash: "prefix (join_with_slash xs) (join_with_slash (xs @ ys))"
proof (cases "xs = [] \<or> ys = []")
  case True
  then show ?thesis by auto
next
  case False
  then show ?thesis by (simp add: join_with_slash_append)
qed

lemma split_overrides_path:
  "split_on CHR ''/'' ''/http-toolkit-injections/overrides'' = ['''', ''http-toolkit-injections'', ''overrides'']"
  by simp

lemma overrides_join_prefix:
  assumes "''..'' \<notin> set (split_on CHR ''/'' n)"
  shows "prefix HTTP_TOOLKIT_INJECTED_OVERRIDES_PATH (posix_join [HTTP_TOOLKIT_INJECTED_OVERRIDES_PATH, n])"
proof (cases "n = []")
  case True
  then show ?thesis
    by (simp add: overrides_path posix_join_def posix_normalize_def normalizeString_def normalize_step_def)
next
  case False
  let ?O = "''/http-toolkit-injections/overrides''"
  let ?base = "[''http-toolkit-injections'', ''overrides'']"
  let ?rest = "filter (\<lambda>s. s \<noteq> [] \<and> s \<noteq> ''.'') (split_on CHR ''/'' n)"
  have sp: "split_on CHR ''/'' (?O @ CHR ''/'' # n) = ['''', ''http-toolkit-injections'', ''overrides''] @ split_on CHR ''/'' n"
    unfolding split_on_append by simp
  have "foldl (normalize_step False) [] (split_on CHR ''/'' (?O @ CHR ''/'' # n))
      = foldl (normalize_step False) ?base (split_on CHR ''/'' n)"
    unfolding sp by (simp add: normalize_step_def)
  also have "\<dots> = ?base @ ?rest" using assms by (rule foldl_normalize_step_no_dotdot)
  finally have q: "normalizeString (?O @ CHR ''/'' # n) False = join_with_slash (?base @ ?rest)"
    by (simp add: normalizeString_def)
  have pre: "prefix ''http-toolkit-injections/overrides'' (join_with_slash (?base @ ?rest))"
    using prefix_join_with_slash [of ?base ?rest] by simp
  then have ne: "join_with_slash (?base @ ?rest) \<noteq> []" by auto
  have j: "posix_join [?O, n] = ''/'' @ join_with_slash (?base @ ?rest) @ (if last (?O @ CHR ''/'' # n) = CHR ''/'' then ''/'' else [])"
    using False q ne by (simp add: posix_join_def posix_normalize_def Let_def)
  from pre obtain zs where "join_with_slash (?base @ ?rest) = ''http-toolkit-injections/overrides'' @ zs"
    by (auto simp: prefix_def)
  then show ?thesis unfolding overrides_path j by (simp add: prefix_def)
qed

lemma ca_not_under_overrides: "\<not> prefix HTTP_TOOLKIT_INJECTED_OVERRIDES_PATH HTTP_TOOLKIT_INJECTED_CA_PATH"
  by (simp add: overrides_path ca_path)

lemma mode_555: "parseInt ''555'' 8 = Number 365"
  by (simp add: parseInt_def js_whitespace_def is_digit_def digit_val_def)

lemma foldl_pack_entry:
  "\<not> p_finalized p \<Longrightarrow>
   foldl (\<lambda>p (header, content). pack_entry p (f header) content) p dir
     = p\<lparr>p_entries := p_entries p @ map (\<lambda>(header, content). (f header, content)) dir\<rparr>"
  by (induction dir arbitrary: p) (auto simp: pack_entry_def)

lemma packInterceptionFiles_entries:
  "packInterceptionFiles overridesDir certContent =
     \<lparr>p_entries = map (\<lambda>(fileHeader, content). (fileHeader
          \<lparr>h_name := posix_join [HTTP_TOOLKIT_INJECTED_OVERRIDES_PATH, h_name fileHeader],
           h_uid := Some 0, h_gid := Some 0, h_mode := Some (Number 365)\<rparr>, content)) overridesDir
        @ [(\<lparr>h_name = HTTP_TOOLKIT_INJECTED_CA_PATH, h_mode = None, h_uid = None, h_gid = None, h_type = None\<rparr>, certContent)],
      p_finalized = True\<rparr>"
  unfolding packInterceptionFiles_def tarFs_pack_def Let_def if_False
  apply (subst foldl_pack_entry)
   apply (simp add: new_pack_def)
  apply (simp add: pack_entry_def pack_finalize_def new_pack_def mode_555)
  done

text \<open>
  Claim C4. Let the files of the overrides directory have names without a \<open>..\<close> segment,
  as the names of a directory walk are. Then the archive is finalized, and it holds one
  entry per file followed by one last entry, the certificate: that entry is the only one
  at the injected CA path, and its content is the certificate string. Every entry before
  it has a path that starts with the injected overrides root, owner 0, group 0 and mode
  \<open>0555\<close> (365 in decimal), and carries the content of its file.
\<close>

theorem packInterceptionFiles_archive:
  assumes "\<forall>(header, content) \<in> set overridesDir. ''..'' \<notin> set (split_on CHR ''/'' (h_name header))"
  shows "p_finalized (packInterceptionFiles overridesDir certContent)
    \<and> length (p_entries (packInterceptionFiles overridesDir certContent)) = length overridesDir + 1
    \<and> last (p_entries (packInterceptionFiles overridesDir certContent))
        = (\<lparr>h_name = HTTP_TOOLKIT_INJECTED_CA_PATH, h_mode = None, h_uid = None, h_gid = None, h_type = None\<rparr>, certContent)
    \<and> filter (\<lambda>(header, content). h_name header = HTTP_TOOLKIT_INJECTED_CA_PATH)
          (p_entries (packInterceptionFiles overridesDir certContent))
        = [(\<lparr>h_name = HTTP_TOOLKIT_INJECTED_CA_PATH, h_mode = None, h_uid = None, h_gid = None, h_type = None\<rparr>, certContent)]
    \<and> (\<forall>(header, content) \<in> set (butlast (p_entries (packInterceptionFiles overridesDir certContent))).
          prefix HTTP_TOOLKIT_INJECTED_OVERRIDES_PATH (h_name header)
          \<and> h_uid header = Some 0 \<and> h_gid header = Some 0 \<and> h_mode header = Some (Number 365))
    \<and> map snd (butlast (p_entries (packInterceptionFiles overridesDir certContent))) = map snd overridesDir"
proof -
  let ?f = "\<lambda>(fileHeader, content). (fileHeader
          \<lparr>h_name := posix_join [HTTP_TOOLKIT_INJECTED_OVERRIDES_PATH, h_name fileHeader],
           h_uid := Some 0, h_gid := Some 0, h_mode := Some (Number 365)\<rparr>, content :: string)"
  have pre: "prefix HTTP_TOOLKIT_INJECTED_OVERRIDES_PATH (h_name (fst (?f e)))" if "e \<in> set overridesDir" for e
    using that assms overrides_join_prefix by (cases e) auto
  have "h_name (fst (?f e)) \<noteq> HTTP_TOOLKIT_INJECTED_CA_PATH" if "e \<in> set overridesDir" for e
  proof
    assume "h_name (fst (?f e)) = HTTP_TOOLKIT_INJECTED_CA_PATH"
    with pre [OF that] have "prefix HTTP_TOOLKIT_INJECTED_OVERRIDES_PATH HTTP_TOOLKIT_INJECTED_CA_PATH"
      by simp
    with ca_not_under_overrides show False by simp
  qed
  then have no_ca: "filter (\<lambda>(header, content). h_name header = HTTP_TOOLKIT_INJECTED_CA_PATH) (map ?f overridesDir) = []"
    by (auto simp: filter_empty_conv)
  let ?A = "packInterceptionFiles overridesDir certContent"
  have e: "p_entries ?A = map ?f overridesDir @ [(\<lparr>h_name = HTTP_TOOLKIT_INJECTED_CA_PATH, h_mode = None, h_uid = None, h_gid = None, h_type = None\<rparr>, certContent)]"
    by (simp add: packInterceptionFiles_entries)
  have c1: "p_finalized ?A" by (simp add: packInterceptionFiles_entries)
  have c2: "length (p_entries ?A) = length overridesDir + 1" unfolding e by simp
  have c3: "last (p_entries ?A) = (\<lparr>h_name = HTTP_TOOLKIT_INJECTED_CA_PATH, h_mode = None, h_uid = None, h_gid = None, h_type = None\<rparr>, certContent)"
    unfolding e by simp
  have c4: "filter (\<lambda>(header, content). h_name header = HTTP_TOOLKIT_INJECTED_CA_PATH) (p_entries ?A)
        = [(\<lparr>h_name = HTTP_TOOLKIT_INJECTED_CA_PATH, h_mode = None, h_uid = None, h_gid = None, h_type = None\<rparr>, certContent)]"
    unfolding e filter_append no_ca by simp
  have b: "butlast (p_entries ?A) = map ?f overridesDir" unfolding e by simp
  have c5: "\<forall>(header, content) \<in> set (butlast (p_entries ?A)).
          prefix HTTP_TOOLKIT_INJECTED_OVERRIDES_PATH (h_name header)
          \<and> h_uid header = Some 0 \<and> h_gid header = Some 0 \<and> h_mode header = Some (Number 365)"
    unfolding b
  proof (clarify)
    fix header content assume "(header, content) \<in> set (map ?f overridesDir)"
    then obtain e where e: "e \<in> set overridesDir" "(header, content) = ?f e" by auto
    from pre [OF e(1)] e(2) show "prefix HTTP_TOOLKIT_INJECTED_OVERRIDES_PATH (h_name header)
          \<and> h_uid header = Some 0 \<and> h_gid header = Some 0 \<and> h_mode header = Some (Number 365)"
      by (cases e) auto
  qed
  have c6: "map snd (butlast (p_entries ?A)) = map snd overridesDir"
    unfolding b by (simp add: comp_def case_prod_unfold)
  from c1 c2 c3 c4 c5 c6 show ?thesis by blast
qed

theorem packInterceptionFiles_archive_witness:
  "map (\<lambda>(header, content). (h_name header, h_mode header, h_uid header, h_gid header, content))
     (p_entries (packInterceptionFiles example_overrides ''CERT''))
   = [(''/http-toolkit-injections/overrides'', Some (Number 365), Some 0, Some 0, []),
      (''/http-toolkit-injections/overrides/path/curl'', Some (Number 365), Some 0, Some 0, ''#!/bin/sh''),
      (''/http-toolkit-injections/ca.pem'', None, None, None, ''CERT'')]
   \<and> p_finalized (packInterceptionFiles example_overrides ''CERT'')"
  using packInterceptionFiles_archive [of example_overrides "''CERT''"]
  by (simp add: example_overrides_def packInterceptionFiles_entries overrides_path ca_path
      posix_join_def posix_normalize_def normalizeString_def normalize_step_def)

section \<open>Properties of the container replacer\<close>

lemma engine_result_simps [simp]:
  "engine_result (Inl e) = Inl (EngineError e)"
  "engine_result (Inr x) = Inr x"
  by (simp_all add: engine_result_def)

lemma await_cases:
  assumes "await m f w = (r, w')"
  obtains (rejected) err where "m w = (Inl err, w')" "r = Inl err"
        | (resolved) x w1 where "m w = (Inr x, w1)" "f x w1 = (r, w')"
  using assms by (auto simp: await_def split: prod.splits sum.splits)

lemma request_cases:
  assumes "request op ev w = (r, w')"
  obtains (failed) e s' where "op (est w) = (Inl e, s')" "r = Inl (EngineError e)"
            "w' = \<lparr>est = s', events = events w @ [ev (Inl e)]\<rparr>"
        | (answered) x s' where "op (est w) = (Inr x, s')" "r = Inr x"
            "w' = \<lparr>est = s', events = events w @ [ev (Inr x)]\<rparr>"
proof -
  obtain a s' where a: "op (est w) = (a, s')" by fastforce
  with assms have r: "r = engine_result a" "w' = \<lparr>est = s', events = events w @ [ev a]\<rparr>"
    by (auto simp: request_def)
  show thesis
  proof (cases a)
    case (Inl e)
    with a r show ?thesis by (intro failed [of e s']) auto
  next
    case (Inr x)
    with a r show ?thesis by (intro answered [of x s']) auto
  qed
qed

lemma promise_all_requests:
  "promise_all (map (\<lambda>j. request (fst j) (snd j)) jobs) w = (r, w') \<Longrightarrow>
   \<exists>answers. length answers = length jobs
     \<and> events w' = events w @ map (\<lambda>(j, a). snd j a) (zip jobs answers)
     \<and> (case r of Inl err \<Rightarrow> \<exists>e. err = EngineError e \<and> Inl e \<in> set answers
                  | Inr xs \<Rightarrow> \<forall>a\<in>set answers. \<not> isl a)"
proof (induction jobs arbitrary: w r w')
  case Nil
  then show ?case by auto
next
  case (Cons j jobs)
  obtain r1 w1 where j: "request (fst j) (snd j) w = (r1, w1)" by fastforce
  obtain rs w2 where rest: "promise_all (map (\<lambda>j. request (fst j) (snd j)) jobs) w1 = (rs, w2)" by fastforce
  from Cons.IH [OF rest] obtain answers where a: "length answers = length jobs"
    "events w2 = events w1 @ map (\<lambda>(j, a). snd j a) (zip jobs answers)"
    "case rs of Inl err \<Rightarrow> \<exists>e. err = EngineError e \<and> Inl e \<in> set answers
                  | Inr xs \<Rightarrow> \<forall>a\<in>set answers. \<not> isl a" by blast
  from Cons.prems j rest have w': "w' = w2"
    and r: "r = (case r1 of Inl err \<Rightarrow> Inl err | Inr x \<Rightarrow> (case rs of Inl err \<Rightarrow> Inl err | Inr xs \<Rightarrow> Inr (x # xs)))"
    by auto
  from j show ?case
  proof (cases rule: request_cases)
    case (failed e s')
    with a w' r show ?thesis
      by (intro exI [of _ "Inl e # answers"]) auto
  next
    case (answered x s')
    with a w' r show ?thesis
      by (intro exI [of _ "Inr x # answers"]) (auto split: sum.splits)
  qed
qed

lemma promise_all_connects:
  assumes "promise_all (map (\<lambda>n. network_connect docker (f n) (g n)) ns) w = (r, w')"
  shows "\<exists>answers. length answers = length ns
     \<and> events w' = events w @ map (\<lambda>(n, a). EvConnect (f n) (g n) a) (zip ns answers)
     \<and> (case r of Inl err \<Rightarrow> \<exists>e. err = EngineError e \<and> Inl e \<in> set answers
                  | Inr xs \<Rightarrow> \<forall>a\<in>set answers. \<not> isl a)"
proof -
  let ?jobs = "map (\<lambda>n. (e_connect docker (f n) (g n), EvConnect (f n) (g n))) ns"
  have "map (\<lambda>n. network_connect docker (f n) (g n)) ns = map (\<lambda>j. request (fst j) (snd j)) ?jobs"
    by (simp add: network_connect_def comp_def)
  with assms have "promise_all (map (\<lambda>j. request (fst j) (snd j)) ?jobs) w = (r, w')" by simp
  from promise_all_requests [OF this] obtain answers where a: "length answers = length ?jobs"
    "events w' = events w @ map (\<lambda>(j, a). snd j a) (zip ?jobs answers)"
    "case r of Inl err \<Rightarrow> \<exists>e. err = EngineError e \<and> Inl e \<in> set answers
                  | Inr xs \<Rightarrow> \<forall>a\<in>set answers. \<not> isl a" by blast
  have "map (\<lambda>(j, a). snd j a) (zip ?jobs answers) = map (\<lambda>(n, a). EvConnect (f n) (g n) a) (zip ns answers)"
    by (simp add: zip_map1 comp_def case_prod_unfold)
  with a show ?thesis by (intro exI [of _ answers]) simp
qed

lemma restart_trace:
  assumes run: "restartAndInjectContainer deps docker cid opts w = (r, w')"
  obtains
    (inspect_failed) e where
      "events w' = events w @ [EvInspectContainer cid (Inl e)]" "r = Inl (EngineError e)"
  | (stop_failed) details e where
      "events w' = events w @ [EvInspectContainer cid (Inr details), EvStop cid 1 (Inl e)]"
      "r = Inl (EngineError e)"
  | (remove_failed) details e where
      "events w' = events w @ [EvInspectContainer cid (Inr details), EvStop cid 1 (Inr ()),
          EvRemove cid (Inl e)]"
      "\<not> tolerated_status e" "r = Inl (EngineError e)"
  | (options_failed) details rm err where
      "events w' = events w @ [EvInspectContainer cid (Inr details), EvStop cid 1 (Inr ()),
          EvRemove cid rm]"
      "remove_passed rm" "cloneOptions deps opts details = Inl err" "r = Inl err"
  | (create_failed) details rm options e where
      "events w' = events w @ [EvInspectContainer cid (Inr details), EvStop cid 1 (Inr ()),
          EvRemove cid rm, EvCreateContainer options (Inl e)]"
      "remove_passed rm" "cloneOptions deps opts details = Inr options" "r = Inl (EngineError e)"
  | (connect_failed) details rm options newContainer answers e where
      "events w' = events w @ [EvInspectContainer cid (Inr details), EvStop cid 1 (Inr ()),
          EvRemove cid rm, EvCreateContainer options (Inr newContainer)]
          @ connect_events details newContainer answers"
      "remove_passed rm" "cloneOptions deps opts details = Inr options"
      "length (ci_Networks details) > 1" "length answers = length (ci_Networks details) - 1"
      "Inl e \<in> set answers" "r = Inl (EngineError e)"
  | (connected) details rm options newContainer answers tail where
      "events w' = events w @ [EvInspectContainer cid (Inr details), EvStop cid 1 (Inr ()),
          EvRemove cid rm, EvCreateContainer options (Inr newContainer)]
          @ connect_events details newContainer answers @ tail"
      "remove_passed rm" "cloneOptions deps opts details = Inr options"
      "length answers = (if length (ci_Networks details) > 1 then length (ci_Networks details) - 1 else 0)"
      "\<forall>a\<in>set answers. \<not> isl a"
      "(\<exists>e. io_interceptionType opts = Inject \<and> r = Inl (EngineError e)
            \<and> tail = [EvPutArchive newContainer
                  (packInterceptionFiles (overridesDirFiles deps) (io_certContent opts)) ''/'' (Inl e)])
       \<or> (\<exists>a. r = engine_result a
            \<and> tail = (if io_interceptionType opts = Inject
                  then [EvPutArchive newContainer
                     (packInterceptionFiles (overridesDirFiles deps) (io_certContent opts)) ''/'' (Inr ())]
                  else []) @ [EvStart newContainer a])"
proof -
  from run [unfolded restartAndInjectContainer_def] show thesis
  proof (cases rule: await_cases)
    case (rejected err)
    from rejected(1) [unfolded container_inspect_def] show ?thesis
      by (cases rule: request_cases) (use rejected in \<open>auto intro: inspect_failed\<close>)
  next
    case (resolved details w1)
    from resolved(1) [unfolded container_inspect_def]
    have w1: "events w1 = events w @ [EvInspectContainer cid (Inr details)]"
      by (cases rule: request_cases) auto
    from resolved(2) show ?thesis
    proof (cases rule: await_cases)
      case (rejected err)
      from rejected(1) [unfolded container_stop_def] show ?thesis
        by (cases rule: request_cases) (use rejected w1 in \<open>auto intro: stop_failed\<close>)
    next
      case (resolved u w2)
      from resolved(1) [unfolded container_stop_def]
      have w2: "events w2 = events w1 @ [EvStop cid 1 (Inr ())]"
        by (cases rule: request_cases) auto
      from resolved(2) show ?thesis
      proof (cases rule: await_cases)
        case (rejected err)
        obtain rr w3 where rm: "container_remove docker cid w2 = (rr, w3)" by fastforce
        from rm [unfolded container_remove_def] show ?thesis
        proof (cases rule: request_cases)
          case (failed e s')
          with rejected rm have "\<not> tolerated_status e" "err = EngineError e" "w' = w3"
            by (auto simp: catch_def resolve_def reject_def tolerated_status_def split: if_splits)
          with failed rejected w1 w2 show ?thesis by (auto intro: remove_failed)
        next
          case (answered x s')
          with rejected rm show ?thesis by (auto simp: catch_def)
        qed
      next
        case (resolved u3 w3)
        have "\<exists>rm. remove_passed rm \<and> events w3 = events w2 @ [EvRemove cid rm]"
        proof -
          obtain rr w3' where rm: "container_remove docker cid w2 = (rr, w3')" by fastforce
          from rm [unfolded container_remove_def] show ?thesis
          proof (cases rule: request_cases)
            case (failed e s')
            with resolved(1) rm have "tolerated_status e \<and> w3 = w3'"
              by (auto simp: catch_def resolve_def reject_def tolerated_status_def split: if_splits)
            with failed show ?thesis by (intro exI [of _ "Inl e"]) (simp add: remove_passed_def)
          next
            case (answered x s')
            with resolved(1) rm have "w3 = w3'" by (auto simp: catch_def)
            with answered show ?thesis by (intro exI [of _ "Inr ()"]) (simp add: remove_passed_def)
          qed
        qed
        then obtain rm where rm: "remove_passed rm" "events w3 = events w2 @ [EvRemove cid rm]" by blast
        note pre = w1 w2 rm(2)
        from resolved(2) [unfolded Let_def] show ?thesis
        proof (cases rule: await_cases)
          case (rejected err)
          then show ?thesis using pre rm(1) by (auto simp: settled_def intro: options_failed)
        next
          case (resolved options w4)
          then have co: "cloneOptions deps opts details = Inr options" and w4: "w4 = w3"
            by (auto simp: settled_def)
          from resolved(2) show ?thesis
          proof (cases rule: await_cases)
            case (rejected err)
            from rejected(1) [unfolded createContainer_def] show ?thesis
              by (cases rule: request_cases)
                (use rejected pre rm(1) co w4 in \<open>auto intro: create_failed\<close>)
          next
            case (resolved newContainer w5)
            from resolved(1) [unfolded createContainer_def]
            have w5: "events w5 = events w4 @ [EvCreateContainer options (Inr newContainer)]"
              by (cases rule: request_cases) auto
            let ?names = "array_keys (slice_from (object_keys (ci_Networks details)) 1)"
            have len: "length ?names = length (ci_Networks details) - 1"
              by (simp add: array_keys_def slice_from_def object_keys_def)
            from resolved(2) show ?thesis
            proof (cases rule: await_cases)
              case (rejected err)
              then have many: "length (ci_Networks details) > 1"
                by (auto simp: object_keys_def resolve_def split: if_splits)
              with rejected have "promise_all (map (\<lambda>networkName.
                      network_connect docker (Some networkName)
                        \<lparr>cn_Container = newContainer,
                         cn_EndpointConfig = js_get (ci_Networks details) networkName\<rparr>) ?names) w5 = (Inl err, w')"
                by (simp add: object_keys_def)
              from promise_all_connects [OF this] obtain answers e where
                "length answers = length ?names"
                "events w' = events w5 @ connect_events details newContainer answers"
                "err = EngineError e" "Inl e \<in> set answers"
                by (auto simp: connect_events_def)
              with rejected pre rm(1) co w4 w5 many len show ?thesis
                by (intro connect_failed [of details rm options newContainer answers e]) auto
            next
              case (resolved xs w6)
              have "\<exists>answers. length answers = (if length (ci_Networks details) > 1 then length (ci_Networks details) - 1 else 0)
                  \<and> events w6 = events w5 @ connect_events details newContainer answers
                  \<and> (\<forall>a\<in>set answers. \<not> isl a)"
              proof (cases "length (ci_Networks details) > 1")
                case True
                with resolved have "promise_all (map (\<lambda>networkName.
                      network_connect docker (Some networkName)
                        \<lparr>cn_Container = newContainer,
                         cn_EndpointConfig = js_get (ci_Networks details) networkName\<rparr>) ?names) w5 = (Inr xs, w6)"
                  by (simp add: object_keys_def)
                from promise_all_connects [OF this] True len show ?thesis
                  by (auto simp: connect_events_def)
              next
                case False
                with resolved have "w6 = w5" by (simp add: object_keys_def resolve_def)
                with False show ?thesis by (intro exI [of _ "[]"]) (simp add: connect_events_def)
              qed
              then obtain answers where ans:
                "length answers = (if length (ci_Networks details) > 1 then length (ci_Networks details) - 1 else 0)"
                "events w6 = events w5 @ connect_events details newContainer answers"
                "\<forall>a\<in>set answers. \<not> isl a" by blast
              let ?archive = "packInterceptionFiles (overridesDirFiles deps) (io_certContent opts)"
              from resolved(2) show ?thesis
              proof (cases rule: await_cases)
                case (rejected err)
                then have inj: "io_interceptionType opts = Inject"
                  and put: "putArchive docker newContainer ?archive ''/'' w6 = (Inl err, w')"
                  by (auto simp: resolve_def split: if_splits)
                from put [unfolded putArchive_def] obtain e where
                  "err = EngineError e"
                  "events w' = events w6 @ [EvPutArchive newContainer ?archive ''/'' (Inl e)]"
                  by (cases rule: request_cases) auto
                with rejected pre rm(1) co w4 w5 ans inj show ?thesis
                  by (intro connected [of details rm options newContainer answers
                        "[EvPutArchive newContainer ?archive ''/'' (Inl e)]"]) auto
              next
                case (resolved u7 w7)
                have w7: "events w7 = events w6 @ (if io_interceptionType opts = Inject
                    then [EvPutArchive newContainer ?archive ''/'' (Inr ())] else [])"
                proof (cases "io_interceptionType opts = Inject")
                  case True
                  with resolved(1) have "putArchive docker newContainer ?archive ''/'' w6 = (Inr u7, w7)"
                    by simp
                  from this [unfolded putArchive_def] True show ?thesis
                    by (cases rule: request_cases) auto
                next
                  case False
                  with resolved(1) show ?thesis by (simp add: resolve_def)
                qed
                from resolved(2) [unfolded container_start_def]
                have "\<exists>a. r = engine_result a
                    \<and> events w' = events w7 @ [EvStart newContainer a]"
                proof (cases rule: request_cases)
                  case (failed e s')
                  then show ?thesis by (intro exI [of _ "Inl e"]) simp
                next
                  case (answered x s')
                  then show ?thesis by (intro exI [of _ "Inr x"]) simp
                qed
                then obtain a where
                  "r = engine_result a"
                  "events w' = events w7 @ [EvStart newContainer a]"
                  by blast
                with pre rm(1) co w4 w5 ans w7 show ?thesis
                  by (intro connected [of details rm options newContainer answers
                        "(if io_interceptionType opts = Inject
                            then [EvPutArchive newContainer ?archive ''/'' (Inr ())] else [])
                         @ [EvStart newContainer a]"]) auto
              qed
            qed
          qed
        qed
      qed
    qed
  qed
qed

lemma event_error_simps [simp]:
  "event_error (EvInspectContainer c a1) = (case a1 of Inl e \<Rightarrow> Some e | Inr _ \<Rightarrow> None)"
  "event_error (EvStop c t a2) = (case a2 of Inl e \<Rightarrow> Some e | Inr _ \<Rightarrow> None)"
  "event_error (EvRemove c a2) = (case a2 of Inl e \<Rightarrow> Some e | Inr _ \<Rightarrow> None)"
  "event_error (EvKill c a2) = (case a2 of Inl e \<Rightarrow> Some e | Inr _ \<Rightarrow> None)"
  "event_error (EvStart c a2) = (case a2 of Inl e \<Rightarrow> Some e | Inr _ \<Rightarrow> None)"
  "event_error (EvCreateContainer co a3) = (case a3 of Inl e \<Rightarrow> Some e | Inr _ \<Rightarrow> None)"
  "event_error (EvPutArchive c p pth a2) = (case a2 of Inl e \<Rightarrow> Some e | Inr _ \<Rightarrow> None)"
  "event_error (EvConnect n cn a2) = (case a2 of Inl e \<Rightarrow> Some e | Inr _ \<Rightarrow> None)"
  "event_error (EvDisconnect n c a2) = (case a2 of Inl e \<Rightarrow> Some e | Inr _ \<Rightarrow> None)"
  "event_error (EvInspectImage i a2) = (case a2 of Inl e \<Rightarrow> Some e | Inr _ \<Rightarrow> None)"
  "event_error (EvPull i a2) = (case a2 of Inl e \<Rightarrow> Some e | Inr _ \<Rightarrow> None)"
  "event_error (EvVersion a4) = (case a4 of Inl e \<Rightarrow> Some e | Inr _ \<Rightarrow> None)"
  "event_error (EvListNetworks a5) = (case a5 of Inl e \<Rightarrow> Some e | Inr _ \<Rightarrow> None)"
  "event_error (EvListContainers l a6) = (case a6 of Inl e \<Rightarrow> Some e | Inr _ \<Rightarrow> None)"
  by (simp_all add: event_error_def)

lemma connect_events_member:
  assumes "ev \<in> set (connect_events details newContainer answers)"
  shows "\<exists>n a. ev = EvConnect (Some n) \<lparr>cn_Container = newContainer,
             cn_EndpointConfig = js_get (ci_Networks details) n\<rparr> a \<and> a \<in> set answers
             \<and> n \<in> set (array_keys (slice_from (object_keys (ci_Networks details)) 1))"
  using assms by (auto simp: connect_events_def dest: set_zip_leftD set_zip_rightD)

lemma connect_events_ok:
  assumes "ev \<in> set (connect_events details newContainer answers)" "\<forall>a\<in>set answers. \<not> isl a"
  shows "event_error ev = None"
proof -
  from connect_events_member [OF assms(1)] obtain n a where
    "ev = EvConnect (Some n) \<lparr>cn_Container = newContainer,
             cn_EndpointConfig = js_get (ci_Networks details) n\<rparr> a" "a \<in> set answers" by blast
  with assms(2) show ?thesis by (cases a) auto
qed

lemma cloneOptions_fails:
  "cloneOptions deps opts details = Inl err \<Longrightarrow>
   err = Error ''Env var without ='' \<and> (\<exists>entry\<in>set (cfg_Env (ci_Config details)). CHR ''='' \<notin> set entry)"
  using envArrayToObject_result [of "cfg_Env (ci_Config details)"]
  by (auto simp: cloneOptions_def Let_def split: sum.splits if_splits)


text \<open>
  Claim C2. In every run of \<open>restartAndInjectContainer\<close>: when the engine rejects any
  request of the run, other than a \<open>remove()\<close> it rejects with status 409, 404 or 304,
  the operation fails with an engine error. When \<open>remove()\<close> is rejected with one of these
  three statuses the operation goes on: it either issues the create request or fails on
  the env list while building that request. When \<open>remove()\<close> is rejected with any other
  status, that error is the result and the remove request is the last one made.
\<close>

theorem restart_fails_when_engine_fails:
  assumes run: "restartAndInjectContainer deps docker containerId opts w = (r, w')"
  shows "\<exists>new. events w' = events w @ new
    \<and> (\<forall>ev\<in>set new. \<forall>e. event_error ev = Some e
          \<and> \<not> (ev = EvRemove containerId (Inl e) \<and> tolerated_status e)
         \<longrightarrow> (\<exists>e'. r = Inl (EngineError e')))
    \<and> (\<forall>e. EvRemove containerId (Inl e) \<in> set new \<longrightarrow>
         (if tolerated_status e
          then r = Inl (Error ''Env var without ='')
               \<or> (\<exists>options a. EvCreateContainer options a \<in> set new)
          else r = Inl (EngineError e) \<and> last new = EvRemove containerId (Inl e)))"
  using run
proof (cases rule: restart_trace)
  case (inspect_failed e)
  then show ?thesis by auto
next
  case (stop_failed details e)
  then show ?thesis by auto
next
  case (remove_failed details e)
  then show ?thesis by auto
next
  case (options_failed details rm err)
  from cloneOptions_fails [OF options_failed(3)] options_failed show ?thesis
    by (auto simp: remove_passed_def split: sum.splits)
next
  case (create_failed details rm options e)
  then show ?thesis by (auto simp: remove_passed_def split: sum.splits)
next
  case (connect_failed details rm options newContainer answers e)
  show ?thesis
  proof (intro exI conjI)
    show "events w' = events w @ ([EvInspectContainer containerId (Inr details), EvStop containerId 1 (Inr ()),
          EvRemove containerId rm, EvCreateContainer options (Inr newContainer)]
          @ connect_events details newContainer answers)"
      using connect_failed(1) by simp
  qed (use connect_failed in \<open>auto simp: remove_passed_def split: sum.splits dest!: connect_events_member\<close>)
next
  case (connected details rm options newContainer answers tail)
  have tail: "\<forall>ev\<in>set tail. \<forall>e. event_error ev = Some e \<longrightarrow> (\<exists>e'. r = Inl (EngineError e'))"
  proof -
    from connected(6) consider
      (put) e where "r = Inl (EngineError e)"
    | (started) a where "r = engine_result a"
        "tail = (if io_interceptionType opts = Inject
                  then [EvPutArchive newContainer
                     (packInterceptionFiles (overridesDirFiles deps) (io_certContent opts)) ''/'' (Inr ())]
                  else []) @ [EvStart newContainer a]"
      by blast
    then show ?thesis
    proof cases
      case (put e)
      then show ?thesis by simp
    next
      case (started a)
      then show ?thesis by (cases a) (auto split: if_splits)
    qed
  qed
  have tail_kind: "\<forall>ev\<in>set tail. \<forall>e. ev \<noteq> EvRemove containerId (Inl e)"
    using connected(6) by (auto split: if_splits)
  have tail_create: "\<forall>ev\<in>set tail. \<forall>options a. ev \<noteq> EvCreateContainer options a"
    using connected(6) by (auto split: if_splits)
  define new where "new = [EvInspectContainer containerId (Inr details), EvStop containerId 1 (Inr ()),
          EvRemove containerId rm, EvCreateContainer options (Inr newContainer)]
          @ connect_events details newContainer answers @ tail"
  have e: "events w' = events w @ new" using connected(1) by (simp add: new_def)
  have A: "\<forall>ev\<in>set new. \<forall>e. event_error ev = Some e
          \<and> \<not> (ev = EvRemove containerId (Inl e) \<and> tolerated_status e)
         \<longrightarrow> (\<exists>e'. r = Inl (EngineError e'))"
    unfolding new_def
    using connected(2,5) tail connect_events_ok [of _ details newContainer answers]
    by (auto simp: remove_passed_def split: sum.splits)
  have B: "\<forall>e. EvRemove containerId (Inl e) \<in> set new \<longrightarrow>
         (if tolerated_status e
          then r = Inl (Error ''Env var without ='')
               \<or> (\<exists>options a. EvCreateContainer options a \<in> set new)
          else r = Inl (EngineError e) \<and> last new = EvRemove containerId (Inl e))"
    unfolding new_def
    using connected(2) tail_kind
    by (auto simp: remove_passed_def split: sum.splits dest!: connect_events_member)
  from e A B show ?thesis by blast
qed


lemmas io_defs = await_def catch_def resolve_def reject_def settled_def start_promise_def
  runExclusive_def request_def engine_result_def container_inspect_def container_stop_def container_remove_def
  container_kill_def container_start_def createContainer_def putArchive_def network_connect_def
  network_disconnect_def image_inspect_def pull_def version_def listNetworks_def listContainers_def

lemmas example_defs = example_endpoint_def example_container_def example_deps_def
  example_options_def fixed_engine_def fresh_world_def example_overrides_def

lemmas env_defs = envArrayToObject_def envEntryToPair_def indexOf_def slice_def slice_from_def
  fromPairs_def js_set_def js_define_def is_array_index_def is_digit_def digits_value_def
  digit_val_def envObjectToArray_def object_keys_def js_get_def

text \<open>
  Claim C1 does not hold for the code. For a snapshot with the two networks \<open>bridge\<close> and
  \<open>backend\<close>, the code creates the new container with \<open>bridge\<close> alone and then makes one
  connect request, as the claim says; but the request is for a network called \<open>0\<close>, the
  index of \<open>backend\<close> in \<open>networkNames.slice(1)\<close>, and carries no endpoint
  configuration, where the claim has a request for \<open>backend\<close> with its endpoint settings.
  An engine that knows only the two real networks rejects the request, and the new
  container is never started.
\<close>

theorem restart_connects_index_not_network:
  "fst (restartAndInjectContainer example_deps
      (fixed_engine
         (example_container [''PATH=/bin'']
            [(''bridge'', example_endpoint ''b1'' ''172.17.0.2''),
             (''backend'', example_endpoint ''b2'' ''10.0.0.2'')])
         (Inr ()) [''bridge'', ''backend''])
      ''app'' example_options (fresh_world ()))
   = Inl (EngineError (EngineFailure (Some 404)))
   \<and> map (\<lambda>ev. case ev of EvCreateContainer options a \<Rightarrow> co_EndpointsConfig options | _ \<Rightarrow> None)
        (take 4 (events (snd (restartAndInjectContainer example_deps
      (fixed_engine
         (example_container [''PATH=/bin'']
            [(''bridge'', example_endpoint ''b1'' ''172.17.0.2''),
             (''backend'', example_endpoint ''b2'' ''10.0.0.2'')])
         (Inr ()) [''bridge'', ''backend''])
      ''app'' example_options (fresh_world ())))))
   = [None, None, None, Some [(''bridge'', example_endpoint ''b1'' ''172.17.0.2'')]]
   \<and> drop 4 (events (snd (restartAndInjectContainer example_deps
      (fixed_engine
         (example_container [''PATH=/bin'']
            [(''bridge'', example_endpoint ''b1'' ''172.17.0.2''),
             (''backend'', example_endpoint ''b2'' ''10.0.0.2'')])
         (Inr ()) [''bridge'', ''backend''])
      ''app'' example_options (fresh_world ()))))
   = [EvConnect (Some ''0'') \<lparr>cn_Container = ''new-container'', cn_EndpointConfig = None\<rparr>
        (Inl (EngineFailure (Some 404)))]"
  by (simp add: restartAndInjectContainer_def cloneOptions_def io_defs example_defs env_defs
      array_keys_def string_of_nat.simps Let_def)

theorem restart_fails_when_engine_fails_witness:
  "fst (restartAndInjectContainer example_deps
      (fixed_engine (example_container [''PATH=/bin''] [(''bridge'', example_endpoint ''b1'' ''172.17.0.2'')])
         (Inl (EngineFailure (Some 404))) [''bridge''])
      ''app'' example_options (fresh_world ())) = Inr ()
   \<and> map event_error (events (snd (restartAndInjectContainer example_deps
      (fixed_engine (example_container [''PATH=/bin''] [(''bridge'', example_endpoint ''b1'' ''172.17.0.2'')])
         (Inl (EngineFailure (Some 404))) [''bridge''])
      ''app'' example_options (fresh_world ()))))
     = [None, None, Some (EngineFailure (Some 404)), None, None, None]
   \<and> restartAndInjectContainer example_deps
      (fixed_engine (example_container [''PATH=/bin''] [(''bridge'', example_endpoint ''b1'' ''172.17.0.2'')])
         (Inl (EngineFailure (Some 500))) [''bridge''])
      ''app'' example_options (fresh_world ())
     = (Inl (EngineError (EngineFailure (Some 500))),
        \<lparr>est = (), events =
           [EvInspectContainer ''app''
              (Inr (example_container [''PATH=/bin''] [(''bridge'', example_endpoint ''b1'' ''172.17.0.2'')])),
            EvStop ''app'' 1 (Inr ()),
            EvRemove ''app'' (Inl (EngineFailure (Some 500)))]\<rparr>)"
  using restart_fails_when_engine_fails [of example_deps
      "fixed_engine (example_container [''PATH=/bin''] [(''bridge'', example_endpoint ''b1'' ''172.17.0.2'')])
         (Inl (EngineFailure (Some 500))) [''bridge'']"
      "''app''" example_options "fresh_world ()"
      "Inl (EngineError (EngineFailure (Some 500)))"]
  by (simp add: restartAndInjectContainer_def cloneOptions_def io_defs example_defs env_defs
      array_keys_def Let_def)


section \<open>Properties of the tunnel container\<close>

lemma request_events:
  "request op ev w = (r, w') \<Longrightarrow> \<exists>a. r = engine_result a \<and> events w' = events w @ [ev a]"
  by (auto simp: request_def split: prod.splits)

lemma image_present_cases:
  assumes "catch (await (image_inspect docker img) (\<lambda>_. resolve True)) (\<lambda>_. resolve False) w = (r, w')"
  obtains (present) "r = Inr True" "events w' = events w @ [EvInspectImage img (Inr ())]"
        | (absent) e0 where "r = Inr False" "events w' = events w @ [EvInspectImage img (Inl e0)]"
proof -
  obtain a s' where a: "e_inspectImage docker img (est w) = (a, s')" by fastforce
  show thesis
  proof (cases a)
    case (Inl e0)
    with a assms show ?thesis
      by (intro absent [of e0])
        (auto simp: catch_def await_def resolve_def image_inspect_def request_def)
  next
    case (Inr u)
    with a assms show ?thesis
      by (intro present)
        (auto simp: catch_def await_def resolve_def image_inspect_def request_def)
  qed
qed

lemma catch_inspect_cases:
  assumes "catch (await (container_inspect docker n) (\<lambda>info. resolve (Some info))) (\<lambda>_. resolve None) w = (r, w')"
  obtains (missing) e where "r = Inr None" "events w' = events w @ [EvInspectContainer n (Inl e)]"
      "e_inspectContainer docker n (est w) = (Inl e, est w')"
    | (found) c where "r = Inr (Some c)" "events w' = events w @ [EvInspectContainer n (Inr c)]"
      "e_inspectContainer docker n (est w) = (Inr c, est w')"
proof -
  obtain a s' where a: "e_inspectContainer docker n (est w) = (a, s')" by fastforce
  show thesis
  proof (cases a)
    case (Inl e)
    with a assms show ?thesis
      by (intro missing [of e])
        (auto simp: catch_def await_def resolve_def container_inspect_def request_def)
  next
    case (Inr c)
    with a assms show ?thesis
      by (intro found [of c])
        (auto simp: catch_def await_def resolve_def container_inspect_def request_def)
  qed
qed

lemma ensure_trace:
  assumes run: "ensureDockerTunnelRunning deps docker proxyPort w = (r, w')"
  obtains
    (pull_failed) e0 e where
      "events w' = events w @ [EvInspectImage DOCKER_TUNNEL_IMAGE (Inl e0), EvPull DOCKER_TUNNEL_IMAGE (Inl e)]"
      "r = Inl (EngineError e)"
  | (existing) pre c tail where
      "events w' = events w @ pre @ [EvInspectContainer (getDockerTunnelContainerName proxyPort) (Inr c)] @ tail"
      "pre = [EvInspectImage DOCKER_TUNNEL_IMAGE (Inr ())]
       \<or> (\<exists>e0. pre = [EvInspectImage DOCKER_TUNNEL_IMAGE (Inl e0), EvPull DOCKER_TUNNEL_IMAGE (Inr ())])"
      "(ci_Running c \<and> tail = [] \<and> r = Inr ())
       \<or> (\<not> ci_Running c \<and> (\<exists>a. tail = [EvStart (ci_Id c) a]
             \<and> r = engine_result a))"
  | (create_failed) pre e1 tail err where
      "events w' = events w @ pre @ [EvInspectContainer (getDockerTunnelContainerName proxyPort) (Inl e1)] @ tail"
      "pre = [EvInspectImage DOCKER_TUNNEL_IMAGE (Inr ())]
       \<or> (\<exists>e0. pre = [EvInspectImage DOCKER_TUNNEL_IMAGE (Inl e0), EvPull DOCKER_TUNNEL_IMAGE (Inr ())])"
      "r = Inl err"
      "(\<exists>e. tail = [EvVersion (Inl e)] \<and> err = EngineError e)
       \<or> (\<exists>v e. tail = [EvVersion (Inr v), EvListNetworks (Inl e)] \<and> err = EngineError e)
       \<or> (\<exists>v nets. tail = [EvVersion (Inr v), EvListNetworks (Inr nets)] \<and> bridgeGateway nets = Inl err)
       \<or> (\<exists>v nets gw e. tail = [EvVersion (Inr v), EvListNetworks (Inr nets),
               EvCreateContainer (tunnelOptions deps proxyPort v gw) (Inl e)]
             \<and> bridgeGateway nets = Inr gw \<and> err = EngineError e)
       \<or> (\<exists>v nets gw i e. tail = [EvVersion (Inr v), EvListNetworks (Inr nets),
               EvCreateContainer (tunnelOptions deps proxyPort v gw) (Inr i),
               EvInspectContainer (getDockerTunnelContainerName proxyPort) (Inl e)]
             \<and> bridgeGateway nets = Inr gw \<and> err = EngineError e)"
  | (created) pre e1 v nets gw i c tail where
      "events w' = events w @ pre @ [EvInspectContainer (getDockerTunnelContainerName proxyPort) (Inl e1),
          EvVersion (Inr v), EvListNetworks (Inr nets),
          EvCreateContainer (tunnelOptions deps proxyPort v gw) (Inr i),
          EvInspectContainer (getDockerTunnelContainerName proxyPort) (Inr c)] @ tail"
      "pre = [EvInspectImage DOCKER_TUNNEL_IMAGE (Inr ())]
       \<or> (\<exists>e0. pre = [EvInspectImage DOCKER_TUNNEL_IMAGE (Inl e0), EvPull DOCKER_TUNNEL_IMAGE (Inr ())])"
      "bridgeGateway nets = Inr gw"
      "(ci_Running c \<and> tail = [] \<and> r = Inr ())
       \<or> (\<not> ci_Running c \<and> (\<exists>a. tail = [EvStart (ci_Id c) a]
             \<and> r = engine_result a))"
proof -
  let ?name = "getDockerTunnelContainerName proxyPort"
  have start_step: "\<And>c w5. (if \<not> ci_Running c then container_start docker (ci_Id c) else resolve ()) w5 = (r, w')
      \<Longrightarrow> \<exists>tail. events w' = events w5 @ tail \<and> ((ci_Running c \<and> tail = [] \<and> r = Inr ())
       \<or> (\<not> ci_Running c \<and> (\<exists>a. tail = [EvStart (ci_Id c) a]
             \<and> r = engine_result a)))"
    by (auto simp: container_start_def resolve_def split: if_splits dest!: request_events)
  from run [unfolded ensureDockerTunnelRunning_def runExclusive_def] show thesis
  proof (cases rule: await_cases)
    case (rejected err)
    from rejected(1) show ?thesis by (cases rule: image_present_cases) auto
  next
    case (resolved imagePresent w1)
    note first = resolved
    from first(2) show ?thesis
    proof (cases rule: await_cases)
      case (rejected err)
      from first(1) show ?thesis
      proof (cases rule: image_present_cases)
        case present
        with rejected show ?thesis by (simp add: resolve_def)
      next
        case (absent e0)
        with rejected(1) have "request (e_pull docker DOCKER_TUNNEL_IMAGE) (EvPull DOCKER_TUNNEL_IMAGE) w1 = (Inl err, w')"
          by (simp add: pull_def)
        from request_events [OF this] obtain a where
          a: "Inl err = engine_result a" "events w' = events w1 @ [EvPull DOCKER_TUNNEL_IMAGE a]" by blast
        then obtain e where "a = Inl e" "err = EngineError e" by (cases a) auto
        with a absent rejected(2) show ?thesis by (intro pull_failed [of e0 e]) auto
      qed
    next
      case (resolved u w2)
      have "\<exists>pre. events w2 = events w @ pre \<and> (pre = [EvInspectImage DOCKER_TUNNEL_IMAGE (Inr ())]
       \<or> (\<exists>e0. pre = [EvInspectImage DOCKER_TUNNEL_IMAGE (Inl e0), EvPull DOCKER_TUNNEL_IMAGE (Inr ())]))"
        using first(1)
      proof (cases rule: image_present_cases)
        case present
        with resolved(1) show ?thesis by (simp add: resolve_def)
      next
        case (absent e0)
        with resolved(1) have "request (e_pull docker DOCKER_TUNNEL_IMAGE) (EvPull DOCKER_TUNNEL_IMAGE) w1 = (Inr u, w2)"
          by (simp add: pull_def)
        from request_events [OF this] obtain a where
          a: "Inr u = engine_result a" "events w2 = events w1 @ [EvPull DOCKER_TUNNEL_IMAGE a]" by blast
        then have "a = Inr ()" by (cases a) auto
        with a absent show ?thesis by simp
      qed
      then obtain pre where pre: "events w2 = events w @ pre" "pre = [EvInspectImage DOCKER_TUNNEL_IMAGE (Inr ())]
       \<or> (\<exists>e0. pre = [EvInspectImage DOCKER_TUNNEL_IMAGE (Inl e0), EvPull DOCKER_TUNNEL_IMAGE (Inr ())])"
        by blast
      from resolved(2) [unfolded Let_def] show ?thesis
      proof (cases rule: await_cases)
        case (rejected err)
        then show ?thesis by (cases rule: catch_inspect_cases) auto
      next
        case (resolved found w3)
        from resolved(1) show ?thesis
        proof (cases rule: catch_inspect_cases)
          case (found c)
          with resolved(2) have "(if \<not> ci_Running c then container_start docker (ci_Id c) else resolve ()) w3 = (r, w')"
            by (simp add: await_def resolve_def)
          from start_step [OF this] found pre show ?thesis
            by (auto intro!: existing [of pre c])
        next
          case (missing e1)
          note w3 = missing(2)
          from resolved(2) missing(1) have rest: "await (await (version docker) (\<lambda>engineVersion.
                   await (await (listNetworks docker) (\<lambda>networks. settled (bridgeGateway networks)))
                     (\<lambda>defaultBridgeGateway.
                   await (createContainer docker
                            (tunnelOptions deps proxyPort engineVersion defaultBridgeGateway)) (\<lambda>_.
                   container_inspect docker ?name))))
                   (\<lambda>container. if \<not> ci_Running container then container_start docker (ci_Id container)
        else resolve ()) w3 = (r, w')" by simp
          from rest show ?thesis
          proof (cases rule: await_cases)
            case (rejected err)
            from rejected(1) have "\<exists>tail. events w' = events w3 @ tail \<and>
      ((\<exists>e. tail = [EvVersion (Inl e)] \<and> err = EngineError e)
       \<or> (\<exists>v e. tail = [EvVersion (Inr v), EvListNetworks (Inl e)] \<and> err = EngineError e)
       \<or> (\<exists>v nets. tail = [EvVersion (Inr v), EvListNetworks (Inr nets)] \<and> bridgeGateway nets = Inl err)
       \<or> (\<exists>v nets gw e. tail = [EvVersion (Inr v), EvListNetworks (Inr nets),
               EvCreateContainer (tunnelOptions deps proxyPort v gw) (Inl e)]
             \<and> bridgeGateway nets = Inr gw \<and> err = EngineError e)
       \<or> (\<exists>v nets gw i e. tail = [EvVersion (Inr v), EvListNetworks (Inr nets),
               EvCreateContainer (tunnelOptions deps proxyPort v gw) (Inr i),
               EvInspectContainer ?name (Inl e)]
             \<and> bridgeGateway nets = Inr gw \<and> err = EngineError e))"
              by (auto simp: await_def version_def listNetworks_def createContainer_def
                  container_inspect_def request_def engine_result_def settled_def split: prod.splits sum.splits)
            with rejected(2) w3 pre show ?thesis
              by (auto intro!: create_failed [of pre e1 _ err])
          next
            case (resolved c w4)
            from resolved(1) have "\<exists>v nets gw i. events w4 = events w3 @ [EvVersion (Inr v), EvListNetworks (Inr nets),
          EvCreateContainer (tunnelOptions deps proxyPort v gw) (Inr i),
          EvInspectContainer ?name (Inr c)] \<and> bridgeGateway nets = Inr gw"
              by (auto simp: await_def version_def listNetworks_def createContainer_def
                  container_inspect_def request_def engine_result_def settled_def split: prod.splits sum.splits)
            then obtain v nets gw i where w4: "events w4 = events w3 @ [EvVersion (Inr v), EvListNetworks (Inr nets),
          EvCreateContainer (tunnelOptions deps proxyPort v gw) (Inr i),
          EvInspectContainer ?name (Inr c)]" "bridgeGateway nets = Inr gw" by blast
            from start_step [OF resolved(2)] w4 w3 pre show ?thesis
              by (auto intro!: created [of pre e1 v nets gw i c])
          qed
        qed
      qed
    qed
  qed
qed

lemma kind_simps [simp]:
  "is_create (EvInspectContainer n a1) = False" "is_create (EvInspectImage i a2) = False"
  "is_create (EvPull i a2) = False" "is_create (EvVersion a3) = False"
  "is_create (EvListNetworks a4) = False" "is_create (EvCreateContainer co a5) = True"
  "is_create (EvStart n a2) = False"
  "is_start (EvInspectContainer n a1) = False" "is_start (EvInspectImage i a2) = False"
  "is_start (EvPull i a2) = False" "is_start (EvVersion a3) = False"
  "is_start (EvListNetworks a4) = False" "is_start (EvCreateContainer co a5) = False"
  "is_start (EvStart n a2) = True"
  "is_container_inspect (EvInspectContainer n a1) = True" "is_container_inspect (EvInspectImage i a2) = False"
  "is_container_inspect (EvPull i a2) = False" "is_container_inspect (EvVersion a3) = False"
  "is_container_inspect (EvListNetworks a4) = False" "is_container_inspect (EvCreateContainer co a5) = False"
  "is_container_inspect (EvStart n a2) = False"
  "is_network_call (EvInspectContainer n a1) = False" "is_network_call (EvInspectImage i a2) = False"
  "is_network_call (EvPull i a2) = False" "is_network_call (EvVersion a3) = False"
  "is_network_call (EvListNetworks a4) = False" "is_network_call (EvCreateContainer co a5) = False"
  "is_network_call (EvStart n a2) = False"
  "is_network_call (EvConnect nw cn a2) = True" "is_network_call (EvDisconnect nw n a2) = True"
  by (simp_all add: is_create_def is_start_def is_container_inspect_def is_network_call_def)

lemma ensure_summary:
  assumes run: "ensureDockerTunnelRunning deps docker proxyPort w = (r, w')"
  shows "\<exists>new. events w' = events w @ new
    \<and> length (filter is_create new) \<le> 1
    \<and> (\<forall>ev\<in>set new. \<not> is_network_call ev)
    \<and> (\<forall>c. find is_container_inspect new
            = Some (EvInspectContainer (getDockerTunnelContainerName proxyPort) (Inr c)) \<longrightarrow>
          filter is_create new = []
          \<and> (ci_Running c \<longrightarrow> filter is_start new = [] \<and> r = Inr ()
               \<and> (new = [EvInspectImage DOCKER_TUNNEL_IMAGE (Inr ()),
                           EvInspectContainer (getDockerTunnelContainerName proxyPort) (Inr c)]
                    \<or> (\<exists>e. new = [EvInspectImage DOCKER_TUNNEL_IMAGE (Inl e),
                           EvPull DOCKER_TUNNEL_IMAGE (Inr ()),
                           EvInspectContainer (getDockerTunnelContainerName proxyPort) (Inr c)]))))"
  using run
proof (cases rule: ensure_trace)
  case (pull_failed e0 e)
  then show ?thesis by auto
next
  case (existing pre c tail)
  then show ?thesis by (intro exI [of _ "pre @ [EvInspectContainer (getDockerTunnelContainerName proxyPort) (Inr c)] @ tail"]) auto
next
  case (create_failed pre e1 tail err)
  then show ?thesis by (intro exI [of _ "pre @ [EvInspectContainer (getDockerTunnelContainerName proxyPort) (Inl e1)] @ tail"]) auto
next
  case (created pre e1 v nets gw i c tail)
  then show ?thesis by (intro exI [of _ "pre @ [EvInspectContainer (getDockerTunnelContainerName proxyPort) (Inl e1),
          EvVersion (Inr v), EvListNetworks (Inr nets),
          EvCreateContainer (tunnelOptions deps proxyPort v gw) (Inr i),
          EvInspectContainer (getDockerTunnelContainerName proxyPort) (Inr c)] @ tail"]) auto
qed

text \<open>
  Claim C5, with the conditions of its last sentence written out. Take two calls of
  \<open>ensureDockerTunnelRunning\<close> for the same proxy port, one after the other. Each of
  them makes at most one create request, and if it finds the named container when it
  inspects it, it makes no create request, and no start request either if that container
  is running. So if the second call finds the container, the two calls together make at
  most one create request. If the container the second call finds is running, the second
  call succeeds and its requests are the image inspect, a pull of the image when that
  inspect failed, and the container inspect, and nothing else.
\<close>

theorem ensure_running_idempotent:
  assumes first: "ensureDockerTunnelRunning deps docker proxyPort w = (r1, w1)"
    and second: "ensureDockerTunnelRunning deps docker proxyPort w1 = (r2, w2)"
  shows "\<exists>new1 new2. events w1 = events w @ new1 \<and> events w2 = events w1 @ new2
    \<and> length (filter is_create new1) \<le> 1
    \<and> length (filter is_create new2) \<le> 1
    \<and> (\<forall>c. find is_container_inspect new1
            = Some (EvInspectContainer (getDockerTunnelContainerName proxyPort) (Inr c)) \<longrightarrow>
          filter is_create new1 = [] \<and> (ci_Running c \<longrightarrow> filter is_start new1 = []))
    \<and> (\<forall>c. find is_container_inspect new2
            = Some (EvInspectContainer (getDockerTunnelContainerName proxyPort) (Inr c)) \<longrightarrow>
          filter is_create new2 = []
          \<and> length (filter is_create (new1 @ new2)) \<le> 1
          \<and> (ci_Running c \<longrightarrow> filter is_start new2 = [] \<and> r2 = Inr ()
               \<and> (new2 = [EvInspectImage DOCKER_TUNNEL_IMAGE (Inr ()),
                            EvInspectContainer (getDockerTunnelContainerName proxyPort) (Inr c)]
                    \<or> (\<exists>e. new2 = [EvInspectImage DOCKER_TUNNEL_IMAGE (Inl e),
                            EvPull DOCKER_TUNNEL_IMAGE (Inr ()),
                            EvInspectContainer (getDockerTunnelContainerName proxyPort) (Inr c)]))))"
proof -
  from ensure_summary [OF first] obtain new1 where
    n1: "events w1 = events w @ new1" "length (filter is_create new1) \<le> 1"
     "\<forall>c. find is_container_inspect new1
            = Some (EvInspectContainer (getDockerTunnelContainerName proxyPort) (Inr c)) \<longrightarrow>
          filter is_create new1 = [] \<and> (ci_Running c \<longrightarrow> filter is_start new1 = [])"
    by blast
  from ensure_summary [OF second] obtain new2 where
    n2: "events w2 = events w1 @ new2" "length (filter is_create new2) \<le> 1"
     "\<forall>c. find is_container_inspect new2
            = Some (EvInspectContainer (getDockerTunnelContainerName proxyPort) (Inr c)) \<longrightarrow>
          filter is_create new2 = []
          \<and> (ci_Running c \<longrightarrow> filter is_start new2 = [] \<and> r2 = Inr ()
               \<and> (new2 = [EvInspectImage DOCKER_TUNNEL_IMAGE (Inr ()),
                            EvInspectContainer (getDockerTunnelContainerName proxyPort) (Inr c)]
                    \<or> (\<exists>e. new2 = [EvInspectImage DOCKER_TUNNEL_IMAGE (Inl e),
                            EvPull DOCKER_TUNNEL_IMAGE (Inr ()),
                            EvInspectContainer (getDockerTunnelContainerName proxyPort) (Inr c)])))"
    by blast
  have both: "\<forall>c. find is_container_inspect new2
            = Some (EvInspectContainer (getDockerTunnelContainerName proxyPort) (Inr c)) \<longrightarrow>
          length (filter is_create (new1 @ new2)) \<le> 1"
    using n1(2) n2(3) by simp
  from n1 n2 both show ?thesis
    by (intro exI [of _ new1] exI [of _ new2] conjI) blast+
qed

lemma string_of_nat_8000: "string_of_nat 8000 = ''8000''"
  by (simp add: string_of_nat.simps [of 8000] string_of_nat.simps [of 800]
      string_of_nat.simps [of 80] string_of_nat.simps [of 8])

lemmas tunnel_defs = ensureDockerTunnelRunning_def tunnelOptions_def bridgeGateway_def bridgeId_def
  getDockerTunnelContainerName_def string_of_nat_8000 DOCKER_TUNNEL_IMAGE_def DOCKER_TUNNEL_LABEL_def
  tunnel_engine_def example_bridge_def example_tunnel_def not_found_def

theorem ensure_running_idempotent_witness:
  "(case ensureDockerTunnelRunning example_deps (tunnel_engine [example_bridge]) 8000
           (fresh_world \<lparr>ts_imagePresent = False, ts_container = None\<rparr>) of
      (r1, w1) \<Rightarrow>
        (case ensureDockerTunnelRunning example_deps (tunnel_engine [example_bridge]) 8000 w1 of
           (r2, w2) \<Rightarrow>
             r1 = Inr () \<and> r2 = Inr ()
             \<and> map is_create (events w1) = [False, False, False, False, False, True, False, False]
             \<and> map is_start (events w1) = [False, False, False, False, False, False, False, True]
             \<and> map event_error (drop 8 (events w2)) = [None, None]
             \<and> map is_container_inspect (drop 8 (events w2)) = [False, True]))"
proof -
  obtain r1 w1 where run1: "ensureDockerTunnelRunning example_deps (tunnel_engine [example_bridge]) 8000
           (fresh_world \<lparr>ts_imagePresent = False, ts_container = None\<rparr>) = (r1, w1)"
    by fastforce
  obtain r2 w2 where run2:
    "ensureDockerTunnelRunning example_deps (tunnel_engine [example_bridge]) 8000 w1 = (r2, w2)"
    by fastforce
  from ensure_running_idempotent [OF run1 run2] obtain new1 where
    "length (filter is_create new1) \<le> 1" by blast
  then show ?thesis
    by (simp add: tunnel_defs io_defs example_defs is_create_def is_start_def
        is_container_inspect_def Let_def)
qed

text \<open>
  Claim C5 as stated fails when the first call does not leave a running tunnel that the
  second call can see. A tunnel that exits once started is removed by the engine, since
  it was created with \<open>AutoRemove\<close>: the second call creates it again, so two create
  requests are made. And when the image inspect fails, the second call pulls the image
  although the tunnel is running.
\<close>

theorem ensure_running_idempotent_counterexample:
  "(case ensureDockerTunnelRunning example_deps (exiting_engine [example_bridge]) 8000
           (fresh_world \<lparr>ts_imagePresent = True, ts_container = None\<rparr>) of
      (r1, w1) \<Rightarrow>
        (case ensureDockerTunnelRunning example_deps (exiting_engine [example_bridge]) 8000 w1 of
           (r2, w2) \<Rightarrow>
             r1 = Inr () \<and> r2 = Inr ()
             \<and> map is_create (events w1) = [False, False, False, False, True, False, False]
             \<and> map is_create (drop 7 (events w2)) = [False, False, False, False, True, False, False]
             \<and> length (filter is_create (events w2)) = 2))
   \<and> (case ensureDockerTunnelRunning example_deps (imageless_engine [example_bridge]) 8000
           (fresh_world \<lparr>ts_imagePresent = False, ts_container = None\<rparr>) of
      (r1, w1) \<Rightarrow>
        (case ensureDockerTunnelRunning example_deps (imageless_engine [example_bridge]) 8000 w1 of
           (r2, w2) \<Rightarrow>
             r1 = Inr () \<and> r2 = Inr ()
             \<and> length (events w1) = 8
             \<and> take 2 (drop 8 (events w2))
                 = [EvInspectImage DOCKER_TUNNEL_IMAGE (Inl (EngineFailure (Some 500))),
                    EvPull DOCKER_TUNNEL_IMAGE (Inr ())]
             \<and> map is_container_inspect (drop 8 (events w2)) = [False, False, True]))"
  by (simp add: tunnel_defs exiting_engine_def imageless_engine_def io_defs example_defs
      is_create_def is_start_def is_container_inspect_def Let_def)

lemma set_uniq [simp]: "set (uniq xs) = set xs"
  by (simp add: uniq_def)

lemma distinct_uniq [simp]: "distinct (uniq xs)"
  by (simp add: uniq_def)


lemma stopped_at_simps [simp]:
  "stopped_at err (EvPull i (Inl e)) = (err = EngineError e)"
  "stopped_at err (EvStart c (Inl e)) = (err = EngineError e)"
  "stopped_at err (EvVersion (Inl e)) = (err = EngineError e)"
  "stopped_at err (EvListNetworks (Inl e)) = (err = EngineError e)"
  "stopped_at err (EvListNetworks (Inr nets)) = (bridgeGateway nets = Inl err)"
  "stopped_at err (EvCreateContainer co (Inl e)) = (err = EngineError e)"
  "stopped_at err (EvInspectContainer n (Inl e)) = (err = EngineError e)"
  by (simp_all add: stopped_at_def)













lemmas tunnel_eval = tunnelOptions_def bridgeGateway_def bridgeId_def
  getDockerTunnelContainerName_def string_of_nat_8000 DOCKER_TUNNEL_IMAGE_def DOCKER_TUNNEL_LABEL_def
  tunnel_engine_def example_bridge_def example_tunnel_def not_found_def


lemma bridgeGateway_error: "bridgeGateway nets = Inl err \<Longrightarrow> err = TypeError"
  by (auto simp: bridgeGateway_def split: list.splits option.splits)

lemma ensure_failed:
  assumes "ensureDockerTunnelRunning deps docker proxyPort w = (Inl err, w')"
  shows "\<exists>new. events w' = events w @ new \<and> new \<noteq> []
     \<and> (\<forall>n c. last new \<noteq> EvInspectContainer n (Inr c))
     \<and> (err = TypeError \<or> (\<exists>e. err = EngineError e))"
  using assms
proof (cases rule: ensure_trace)
  case (pull_failed e0 e)
  then show ?thesis by auto
next
  case (existing pre c tail)
  from existing(3) obtain a where "tail = [EvStart (ci_Id c) a]" "Inl err = engine_result a" by auto
  moreover from this obtain e where "a = Inl e" by (cases a) auto
  ultimately show ?thesis using existing(1) by auto
next
  case (create_failed pre e1 tail err')
  from create_failed(4) have "tail \<noteq> [] \<and> (\<forall>n c. last tail \<noteq> EvInspectContainer n (Inr c))
      \<and> (err' = TypeError \<or> (\<exists>e. err' = EngineError e))"
    by (auto dest: bridgeGateway_error)
  with create_failed(1,3) show ?thesis
    by (intro exI [of _ "pre @ [EvInspectContainer (getDockerTunnelContainerName proxyPort) (Inl e1)] @ tail"]) auto
next
  case (created pre e1 v nets gw i c tail)
  from created(4) obtain a where "tail = [EvStart (ci_Id c) a]" "Inl err = engine_result a" by auto
  moreover from this obtain e where "a = Inl e" by (cases a) auto
  ultimately show ?thesis using created(1) by auto
qed

lemma getPort_trace:
  assumes run: "getDockerTunnelPort deps docker proxyPort w = (r, w')"
  obtains
    (found) c where
      "events w' = events w @ [EvInspectContainer (getDockerTunnelContainerName proxyPort) (Inr c)]"
      "r = (case find (\<lambda>m. pb_HostIp m = ''127.0.0.1'') (tunnel_port_mappings c) of
              None \<Rightarrow> Inl (Error ''No port mapped for Docker tunnel'')
            | Some m \<Rightarrow> Inr (case pb_HostPort m of None \<Rightarrow> NaN | Some port \<Rightarrow> parseInt port 10))"
  | (heal_failed) e w1 err where
      "events w1 = events w @ [EvInspectContainer (getDockerTunnelContainerName proxyPort) (Inl e)]"
      "ensureDockerTunnelRunning deps docker proxyPort w1 = (Inl err, w')" "r = Inl err"
  | (healed) e w1 w2 a where
      "events w1 = events w @ [EvInspectContainer (getDockerTunnelContainerName proxyPort) (Inl e)]"
      "ensureDockerTunnelRunning deps docker proxyPort w1 = (Inr (), w2)"
      "events w' = events w2 @ [EvInspectContainer (getDockerTunnelContainerName proxyPort) a]"
      "r = (case a of
              Inl e2 \<Rightarrow> Inl (EngineError e2)
            | Inr c \<Rightarrow>
               (case find (\<lambda>m. pb_HostIp m = ''127.0.0.1'') (tunnel_port_mappings c) of
                  None \<Rightarrow> Inl (Error ''No port mapped for Docker tunnel'')
                | Some m \<Rightarrow> Inr (case pb_HostPort m of None \<Rightarrow> NaN | Some port \<Rightarrow> parseInt port 10)))"
proof -
  let ?name = "getDockerTunnelContainerName proxyPort"
  have port: "\<And>c w3. (let portMappings = js_get (ci_Ports c) ''1080/tcp'';
          localPort = (case portMappings of
                         Some (Some mappings) \<Rightarrow> find (\<lambda>m. pb_HostIp m = ''127.0.0.1'') mappings
                       | _ \<Rightarrow> None)
      in case localPort of
           None \<Rightarrow> reject (Error ''No port mapped for Docker tunnel'')
         | Some mapping \<Rightarrow>
             resolve (case pb_HostPort mapping of None \<Rightarrow> NaN | Some port \<Rightarrow> parseInt port 10)) w3 = (r, w')
     \<Longrightarrow> w' = w3 \<and> r = (case find (\<lambda>m. pb_HostIp m = ''127.0.0.1'') (tunnel_port_mappings c) of
              None \<Rightarrow> Inl (Error ''No port mapped for Docker tunnel'')
            | Some m \<Rightarrow> Inr (case pb_HostPort m of None \<Rightarrow> NaN | Some port \<Rightarrow> parseInt port 10))"
    by (auto simp: Let_def tunnel_port_mappings_def reject_def resolve_def split: option.splits)
  from run [unfolded getDockerTunnelPort_def Let_def] show thesis
  proof (cases rule: await_cases)
    case (rejected err)
    then show ?thesis by (cases rule: catch_inspect_cases) auto
  next
    case (resolved found0 w1)
    from resolved(1) show ?thesis
    proof (cases rule: catch_inspect_cases)
      case (found c)
      with resolved(2) have "(let portMappings = js_get (ci_Ports c) ''1080/tcp'';
          localPort = (case portMappings of
                         Some (Some mappings) \<Rightarrow> find (\<lambda>m. pb_HostIp m = ''127.0.0.1'') mappings
                       | _ \<Rightarrow> None)
      in case localPort of
           None \<Rightarrow> reject (Error ''No port mapped for Docker tunnel'')
         | Some mapping \<Rightarrow>
             resolve (case pb_HostPort mapping of None \<Rightarrow> NaN | Some port \<Rightarrow> parseInt port 10)) w1 = (r, w')"
        by (simp add: await_def resolve_def Let_def)
      from port [OF this] found(2) show ?thesis by (intro that(1) [of c]) auto
    next
      case (missing e)
      with resolved(2) have rest: "await (await (ensureDockerTunnelRunning deps docker proxyPort) (\<lambda>_.
                 container_inspect docker ?name)) (\<lambda>container.
      let portMappings = js_get (ci_Ports container) ''1080/tcp'';
          localPort = (case portMappings of
                         Some (Some mappings) \<Rightarrow> find (\<lambda>m. pb_HostIp m = ''127.0.0.1'') mappings
                       | _ \<Rightarrow> None)
      in case localPort of
           None \<Rightarrow> reject (Error ''No port mapped for Docker tunnel'')
         | Some mapping \<Rightarrow>
             resolve (case pb_HostPort mapping of None \<Rightarrow> NaN | Some port \<Rightarrow> parseInt port 10)) w1 = (r, w')"
        by (simp add: Let_def)
      from rest show ?thesis
      proof (cases rule: await_cases)
        case (rejected err)
        from rejected(1) show ?thesis
        proof (cases rule: await_cases)
          case (rejected err')
          with \<open>r = Inl err\<close> missing(2) show ?thesis by (intro heal_failed [of w1 e err]) auto
        next
          case (resolved u w2)
          from resolved(2) [unfolded container_inspect_def] obtain a where
            a: "Inl err = engine_result a" "events w' = events w2 @ [EvInspectContainer ?name a]"
            using request_events by blast
          then obtain e2 where "a = Inl e2" "err = EngineError e2" by (cases a) auto
          with a \<open>r = Inl err\<close> missing(2) resolved(1) show ?thesis
            by (intro healed [of w1 e w2 a]) auto
        qed
      next
        case (resolved c w3)
        from resolved(1) obtain w2 where
          ens: "ensureDockerTunnelRunning deps docker proxyPort w1 = (Inr (), w2)"
          and insp: "container_inspect docker ?name w2 = (Inr c, w3)"
          by (cases rule: await_cases) auto
        from insp [unfolded container_inspect_def] obtain a where
          a: "Inr c = engine_result a" "events w3 = events w2 @ [EvInspectContainer ?name a]"
          using request_events by blast
        then have ac: "a = Inr c" by (cases a) auto
        from port [OF resolved(2)] a ac ens missing(2) show ?thesis
          by (intro healed [of w1 e w2 a]) auto
      qed
    qed
  qed
qed

lemma digit_val_range: "is_digit c \<Longrightarrow> 0 \<le> digit_val c \<and> digit_val c < 10"
  by (auto simp: is_digit_def digit_val_def)

lemma not_whitespace_digit: "is_digit c \<Longrightarrow> \<not> js_whitespace c \<and> c \<noteq> CHR ''-'' \<and> c \<noteq> CHR ''+''"
  by (auto simp: is_digit_def js_whitespace_def)

lemma foldl_digits_bound:
  "list_all is_digit p \<Longrightarrow> 0 \<le> a \<Longrightarrow>
   0 \<le> foldl (\<lambda>n c. 10 * n + digit_val c) a p
   \<and> foldl (\<lambda>n c. 10 * n + digit_val c) a p < (a + 1) * 10 ^ length p"
proof (induction p arbitrary: a)
  case Nil
  then show ?case by simp
next
  case (Cons c p)
  from Cons.prems digit_val_range [of c] have d: "0 \<le> digit_val c" "digit_val c < 10" by auto
  with Cons.prems have "0 \<le> 10 * a + digit_val c" by simp
  with Cons.IH [of "10 * a + digit_val c"] Cons.prems have
    ih: "0 \<le> foldl (\<lambda>n c. 10 * n + digit_val c) (10 * a + digit_val c) p"
        "foldl (\<lambda>n c. 10 * n + digit_val c) (10 * a + digit_val c) p < (10 * a + digit_val c + 1) * 10 ^ length p"
    by auto
  have "(10 * a + digit_val c + 1) * 10 ^ length p \<le> (10 * a + 10) * (10::int) ^ length p"
    using d by (intro mult_right_mono) auto
  also have "\<dots> = (a + 1) * 10 ^ length (c # p)" by (simp add: algebra_simps)
  finally have le: "(10 * a + digit_val c + 1) * 10 ^ length p \<le> (a + 1) * 10 ^ length (c # p)" .
  have "foldl (\<lambda>n c. 10 * n + digit_val c) a (c # p)
      = foldl (\<lambda>n c. 10 * n + digit_val c) (10 * a + digit_val c) p" by simp
  moreover have "foldl (\<lambda>n c. 10 * n + digit_val c) (10 * a + digit_val c) p
      < (a + 1) * 10 ^ length (c # p)"
    using ih(2) le by (rule less_le_trans)
  ultimately show ?case using ih(1) by presburger
qed

lemma parseInt_digits:
  assumes "port \<noteq> []" "list_all is_digit port" "length port \<le> 15"
  shows "parseInt port 10 = Number (digits_value port)"
proof -
  from assms obtain c rest where p: "port = c # rest" by (cases port) auto
  with assms have c: "is_digit c" by simp
  have t: "dropWhile js_whitespace port = port" using p c not_whitespace_digit by simp
  have h: "hd port \<noteq> CHR ''-''" "hd port \<noteq> CHR ''+''"
    using p c not_whitespace_digit by auto
  have ds: "takeWhile (\<lambda>c. is_digit c \<and> digit_val c < 10) port = port"
    using assms(2) digit_val_range by (auto simp: takeWhile_eq_all_conv list_all_iff)
  from foldl_digits_bound [OF assms(2), of 0] have "digits_value port < 10 ^ length port"
    by (simp add: digits_value_def)
  also have "(10::int) ^ length port \<le> 10 ^ 15" using assms(3) by (intro power_increasing) auto
  finally have b: "digits_value port \<le> 9007199254740992" by simp
  show ?thesis
    using assms(1) b unfolding parseInt_def t Let_def
    by (simp add: h ds digits_value_def)
qed

text \<open>
  Claim C8. Every run of \<open>getDockerTunnelPort\<close> starts by inspecting the tunnel
  container. If the container is found, that is its only request. If it is not, the call
  runs \<open>ensureDockerTunnelRunning\<close> from the state the failed inspect left, fails with
  its error if that fails, and inspects the container once more if it succeeds. When the
  last request is an inspect that found the container, the result is decided by the
  mappings of port \<open>1080/tcp\<close>: without a mapping whose host address is \<open>127.0.0.1\<close>
  the call fails with the error \<open>No port mapped for Docker tunnel\<close>; otherwise it returns
  \<open>parseInt\<close> of the host port of the first such mapping, which for a port written in
  up to fifteen digits is that integer. In every other run the call fails with another
  error.
\<close>

theorem getDockerTunnelPort_result:
  assumes run: "getDockerTunnelPort deps docker proxyPort w = (r, w')"
  shows "\<exists>new. events w' = events w @ new \<and> new \<noteq> []
    \<and> (\<exists>a. hd new = EvInspectContainer (getDockerTunnelContainerName proxyPort) a)
    \<and> (\<forall>c. hd new = EvInspectContainer (getDockerTunnelContainerName proxyPort) (Inr c) \<longrightarrow>
          new = [EvInspectContainer (getDockerTunnelContainerName proxyPort) (Inr c)])
    \<and> (\<forall>e. hd new = EvInspectContainer (getDockerTunnelContainerName proxyPort) (Inl e) \<longrightarrow>
         (\<exists>w1 r1 w2. events w1 = events w @ [EvInspectContainer (getDockerTunnelContainerName proxyPort) (Inl e)]
            \<and> ensureDockerTunnelRunning deps docker proxyPort w1 = (r1, w2)
            \<and> (case r1 of
                  Inl err \<Rightarrow> r = Inl err \<and> w' = w2
                | Inr u \<Rightarrow> \<exists>a. events w' = events w2
                      @ [EvInspectContainer (getDockerTunnelContainerName proxyPort) a])))
    \<and> (\<forall>c. last new = EvInspectContainer (getDockerTunnelContainerName proxyPort) (Inr c) \<longrightarrow>
         (case find (\<lambda>m. pb_HostIp m = ''127.0.0.1'') (tunnel_port_mappings c) of
            None \<Rightarrow> r = Inl (Error ''No port mapped for Docker tunnel'')
          | Some m \<Rightarrow> r = Inr (case pb_HostPort m of None \<Rightarrow> NaN | Some port \<Rightarrow> parseInt port 10)))
    \<and> ((\<forall>c. last new \<noteq> EvInspectContainer (getDockerTunnelContainerName proxyPort) (Inr c)) \<longrightarrow>
         (\<exists>err. r = Inl err \<and> err \<noteq> Error ''No port mapped for Docker tunnel''))
    \<and> (\<forall>port. port \<noteq> [] \<and> list_all is_digit port \<and> length port \<le> 15 \<longrightarrow>
          parseInt port 10 = Number (digits_value port))"
proof -
  let ?name = "getDockerTunnelContainerName proxyPort"
  have digits: "\<forall>port. port \<noteq> [] \<and> list_all is_digit port \<and> length port \<le> 15 \<longrightarrow>
          parseInt port 10 = Number (digits_value port)"
    using parseInt_digits by blast
  from run show ?thesis
  proof (cases rule: getPort_trace)
    case (found c)
    define new where "new = [EvInspectContainer ?name (Inr c)]"
    have e: "events w' = events w @ new" using found(1) by (simp add: new_def)
    have p: "case find (\<lambda>m. pb_HostIp m = ''127.0.0.1'') (tunnel_port_mappings c) of
            None \<Rightarrow> r = Inl (Error ''No port mapped for Docker tunnel'')
          | Some m \<Rightarrow> r = Inr (case pb_HostPort m of None \<Rightarrow> NaN | Some port \<Rightarrow> parseInt port 10)"
      using found(2) by (simp split: option.splits)
    show ?thesis
      by (rule exI [of _ new]) (use e p digits in \<open>simp add: new_def\<close>)
  next
    case (heal_failed e w1 err)
    from ensure_failed [OF heal_failed(2)] obtain ens where ens: "events w' = events w1 @ ens" "ens \<noteq> []"
      "\<forall>n c. last ens \<noteq> EvInspectContainer n (Inr c)" "err = TypeError \<or> (\<exists>e. err = EngineError e)"
      by blast
    define new where "new = EvInspectContainer ?name (Inl e) # ens"
    have e: "events w' = events w @ new" using heal_failed(1) ens(1) by (simp add: new_def)
    have h: "hd new = EvInspectContainer ?name (Inl e)" "new \<noteq> []" by (simp_all add: new_def)
    have l: "last new = last ens" using ens(2) by (simp add: new_def)
    have heal: "\<exists>w1 r1 w2. events w1 = events w @ [EvInspectContainer ?name (Inl e)]
            \<and> ensureDockerTunnelRunning deps docker proxyPort w1 = (r1, w2)
            \<and> (case r1 of
                  Inl err \<Rightarrow> r = Inl err \<and> w' = w2
                | Inr u \<Rightarrow> \<exists>a. events w' = events w2 @ [EvInspectContainer ?name a])"
      using heal_failed by (intro exI [of _ w1] exI [of _ "Inl err"] exI [of _ w']) simp
    have err: "\<exists>err. r = Inl err \<and> err \<noteq> Error ''No port mapped for Docker tunnel''"
      using heal_failed(3) ens(4) by auto
    show ?thesis
      by (rule exI [of _ new]) (use e h l heal err ens(3) digits in simp)
  next
    case (healed e w1 w2 a)
    from ensure_summary [OF healed(2)] obtain ens where ens: "events w2 = events w1 @ ens" by blast
    define new where "new = EvInspectContainer ?name (Inl e) # ens @ [EvInspectContainer ?name a]"
    have e: "events w' = events w @ new" using healed(1,3) ens by (simp add: new_def)
    have h: "hd new = EvInspectContainer ?name (Inl e)" "new \<noteq> []" by (simp_all add: new_def)
    have l: "last new = EvInspectContainer ?name a" by (simp add: new_def)
    have heal: "\<exists>w1 r1 w2. events w1 = events w @ [EvInspectContainer ?name (Inl e)]
            \<and> ensureDockerTunnelRunning deps docker proxyPort w1 = (r1, w2)
            \<and> (case r1 of
                  Inl err \<Rightarrow> r = Inl err \<and> w' = w2
                | Inr u \<Rightarrow> \<exists>a. events w' = events w2 @ [EvInspectContainer ?name a])"
      using healed by (intro exI [of _ w1] exI [of _ "Inr ()"] exI [of _ w2]) auto
    have p: "\<forall>c. a = Inr c \<longrightarrow>
         (case find (\<lambda>m. pb_HostIp m = ''127.0.0.1'') (tunnel_port_mappings c) of
            None \<Rightarrow> r = Inl (Error ''No port mapped for Docker tunnel'')
          | Some m \<Rightarrow> r = Inr (case pb_HostPort m of None \<Rightarrow> NaN | Some port \<Rightarrow> parseInt port 10))"
      using healed(4) by (auto split: option.splits)
    have err: "(\<forall>c. a \<noteq> Inr c) \<longrightarrow> (\<exists>err. r = Inl err \<and> err \<noteq> Error ''No port mapped for Docker tunnel'')"
      using healed(4) by (cases a) auto
    show ?thesis
      by (rule exI [of _ new]) (use e h l heal p err digits in simp)
  qed
qed

lemmas parseInt_eval = parseInt_def js_whitespace_def is_digit_def digit_val_def

theorem getDockerTunnelPort_result_witness:
  "fst (getDockerTunnelPort example_deps (tunnel_engine [example_bridge]) 8000
          (fresh_world \<lparr>ts_imagePresent = True, ts_container = Some example_tunnel\<rparr>))
     = Inr (Number 49153)
   \<and> fst (getDockerTunnelPort example_deps (tunnel_engine [example_bridge]) 8000
          (fresh_world \<lparr>ts_imagePresent = True, ts_container = Some (example_tunnel
             \<lparr>ci_Ports := [(''1080/tcp'',
                 Some [\<lparr>pb_HostIp = ''0.0.0.0'', pb_HostPort = Some ''49153''\<rparr>])]\<rparr>)\<rparr>))
     = Inl (Error ''No port mapped for Docker tunnel'')
   \<and> fst (getDockerTunnelPort example_deps (tunnel_engine [example_bridge]) 8000
          (fresh_world \<lparr>ts_imagePresent = False, ts_container = None\<rparr>))
     = Inr (Number 49153)"
proof (intro conjI)
  obtain r w' where run: "getDockerTunnelPort example_deps (tunnel_engine [example_bridge]) 8000
          (fresh_world \<lparr>ts_imagePresent = True, ts_container = Some example_tunnel\<rparr>) = (r, w')"
    by fastforce
  from getDockerTunnelPort_result [OF run] have
    "\<exists>new. events w' = events (fresh_world \<lparr>ts_imagePresent = True, ts_container = Some example_tunnel\<rparr>) @ new"
    by (elim exE conjE) (rule exI)
  then have "length (events w') \<ge> 0" by simp
  then show "fst (getDockerTunnelPort example_deps (tunnel_engine [example_bridge]) 8000
          (fresh_world \<lparr>ts_imagePresent = True, ts_container = Some example_tunnel\<rparr>))
     = Inr (Number 49153)"
    by (simp add: getDockerTunnelPort_def tunnel_eval io_defs example_defs js_get_def parseInt_eval Let_def)
  show "fst (getDockerTunnelPort example_deps (tunnel_engine [example_bridge]) 8000
          (fresh_world \<lparr>ts_imagePresent = True, ts_container = Some (example_tunnel
             \<lparr>ci_Ports := [(''1080/tcp'',
                 Some [\<lparr>pb_HostIp = ''0.0.0.0'', pb_HostPort = Some ''49153''\<rparr>])]\<rparr>)\<rparr>))
     = Inl (Error ''No port mapped for Docker tunnel'')"
    by (simp add: getDockerTunnelPort_def tunnel_eval io_defs example_defs js_get_def parseInt_eval Let_def)
  show "fst (getDockerTunnelPort example_deps (tunnel_engine [example_bridge]) 8000
          (fresh_world \<lparr>ts_imagePresent = False, ts_container = None\<rparr>))
     = Inr (Number 49153)"
    by (simp add: getDockerTunnelPort_def ensureDockerTunnelRunning_def tunnel_eval io_defs
        example_defs js_get_def parseInt_eval Let_def)
qed

lemma start_all_kills:
  assumes "start_all (map (\<lambda>i. catch (container_kill docker i) (\<lambda>_. resolve ())) containers) w
             = (firsts, w1)"
  shows "firsts = map (\<lambda>_. Inr ()) containers
     \<and> (\<exists>killed. length killed = length containers
          \<and> events w1 = events w @ map (\<lambda>(i, k). EvKill i k) (zip containers killed))"
  using assms
proof (induction containers arbitrary: w firsts w1)
  case Nil
  then show ?case by simp
next
  case (Cons i containers)
  obtain k s1 where k: "e_kill docker i (est w) = (k, s1)" by fastforce
  define w0 where "w0 = \<lparr>est = s1, events = events w @ [EvKill i k]\<rparr>"
  from k have first: "catch (container_kill docker i) (\<lambda>_. resolve ()) w = (Inr (), w0)"
    by (cases k) (auto simp: catch_def resolve_def container_kill_def request_def w0_def)
  obtain rs w2 where rest:
    "start_all (map (\<lambda>i. catch (container_kill docker i) (\<lambda>_. resolve ())) containers) w0 = (rs, w2)"
    by fastforce
  from Cons.IH [OF rest] obtain killed where ih: "rs = map (\<lambda>_. Inr ()) containers"
    "length killed = length containers"
    "events w2 = events w0 @ map (\<lambda>(i, k). EvKill i k) (zip containers killed)" by blast
  from Cons.prems first rest have "firsts = Inr () # rs" "w1 = w2" by auto
  with ih show ?case
    by (auto simp: w0_def intro!: exI [of _ "k # killed"])
qed

lemma all_removes:
  assumes "promise_all (map (\<lambda>i. catch (container_remove docker i) (\<lambda>_. resolve ())) containers) w
             = (r, w')"
  shows "(\<exists>us. r = Inr us)
     \<and> (\<exists>removed. length removed = length containers
          \<and> events w' = events w @ map (\<lambda>(i, a). EvRemove i a) (zip containers removed))"
  using assms
proof (induction containers arbitrary: w r w')
  case Nil
  then show ?case by auto
next
  case (Cons i containers)
  obtain a s1 where a: "e_remove docker i (est w) = (a, s1)" by fastforce
  define w0 where "w0 = \<lparr>est = s1, events = events w @ [EvRemove i a]\<rparr>"
  from a have first: "catch (container_remove docker i) (\<lambda>_. resolve ()) w = (Inr (), w0)"
    by (cases a) (auto simp: catch_def resolve_def container_remove_def request_def w0_def)
  obtain rs w2 where rest:
    "promise_all (map (\<lambda>i. catch (container_remove docker i) (\<lambda>_. resolve ())) containers) w0 = (rs, w2)"
    by fastforce
  from Cons.IH [OF rest] obtain us removed where ih: "rs = Inr us"
    "length removed = length containers"
    "events w2 = events w0 @ map (\<lambda>(i, a). EvRemove i a) (zip containers removed)" by blast
  from Cons.prems first rest ih(1) have "r = Inr (() # us)" "w' = w2" by auto
  with ih show ?case
    by (auto simp: w0_def intro!: exI [of _ "a # removed"])
qed

lemma continue_after_kill:
  "map (\<lambda>(job, first). await (settled first) (snd job))
     (zip (map (\<lambda>i. (catch (container_kill docker i) (\<lambda>_. resolve ()), \<lambda>_.
                      catch (container_remove docker i) (\<lambda>_. resolve ()))) containers)
          (map (\<lambda>_. Inr ()) containers))
   = map (\<lambda>i. catch (container_remove docker i) (\<lambda>_. resolve ())) containers"
  by (induction containers) (auto simp: await_def settled_def)

lemma teardown_events_zip:
  assumes "length killed = length containers" "length removed = length containers"
  shows "teardown_events containers (zip killed removed)
     = map (\<lambda>(i, k). EvKill i k) (zip containers killed)
       @ map (\<lambda>(i, a). EvRemove i a) (zip containers removed)"
proof -
  from assms have "length containers = length killed" "length killed = length removed" by simp_all
  then have "map (\<lambda>(i, k, a). EvKill i k) (zip containers (zip killed removed))
        = map (\<lambda>(i, k). EvKill i k) (zip containers killed)
     \<and> map (\<lambda>(i, k, a). EvRemove i a) (zip containers (zip killed removed))
        = map (\<lambda>(i, a). EvRemove i a) (zip containers removed)"
    by (induction containers killed removed rule: list_induct3) simp_all
  then show ?thesis by (simp add: teardown_events_def)
qed

lemma teardown_all:
  assumes "promise_all_async (map (\<lambda>containerId.
                      (catch (container_kill docker containerId) (\<lambda>_. resolve ()), \<lambda>_.
                       catch (container_remove docker containerId) (\<lambda>_. resolve ())))
                 containers) w = (r, w')"
  shows "(\<exists>us. r = Inr us) \<and> (\<exists>answers. length answers = length containers
      \<and> events w' = events w @ teardown_events containers answers)"
proof -
  obtain firsts w1 where s:
    "start_all (map (\<lambda>i. catch (container_kill docker i) (\<lambda>_. resolve ())) containers) w = (firsts, w1)"
    by fastforce
  from start_all_kills [OF s] obtain killed where k: "firsts = map (\<lambda>_. Inr ()) containers"
    "length killed = length containers"
    "events w1 = events w @ map (\<lambda>(i, k). EvKill i k) (zip containers killed)" by blast
  from assms s k(1) have "promise_all
      (map (\<lambda>i. catch (container_remove docker i) (\<lambda>_. resolve ())) containers) w1 = (r, w')"
    by (simp add: promise_all_async_def comp_def continue_after_kill)
  from all_removes [OF this] obtain us removed where rm: "r = Inr us"
    "length removed = length containers"
    "events w' = events w1 @ map (\<lambda>(i, a). EvRemove i a) (zip containers removed)" by blast
  have "events w' = events w @ teardown_events containers (zip killed removed)"
    using k(3) rm(3) teardown_events_zip [OF k(2) rm(2)] by simp
  moreover have "length (zip killed removed) = length containers" using k(2) rm(2) by simp
  ultimately show ?thesis using rm(1) by blast
qed

lemma stop_locked_trace:
  assumes "stopDockerTunnel_locked docker proxyPort w = (r, w')"
  shows "(\<exists>e. r = Inl (EngineError e)
            \<and> events w' = events w @ [EvListContainers (teardown_label proxyPort) (Inl e)])
       \<or> (\<exists>containers answers. r = Inr () \<and> length answers = length containers
            \<and> events w' = events w @ EvListContainers (teardown_label proxyPort) (Inr containers)
                 # teardown_events containers answers)"
  using assms [unfolded stopDockerTunnel_locked_def teardown_label_def [symmetric]]
proof (cases rule: await_cases)
  case (rejected err)
  from rejected(1) [unfolded listContainers_def] obtain a where
    "Inl err = engine_result a" "events w' = events w @ [EvListContainers (teardown_label proxyPort) a]"
    using request_events by blast
  with rejected(2) show ?thesis by (cases a) auto
next
  case (resolved containers w1)
  from resolved(1) [unfolded listContainers_def] obtain a where
    "Inr containers = engine_result a" "events w1 = events w @ [EvListContainers (teardown_label proxyPort) a]"
    using request_events by blast
  then have w1: "events w1 = events w @ [EvListContainers (teardown_label proxyPort) (Inr containers)]"
    by (cases a) auto
  from resolved(2) obtain rr where pa: "promise_all_async (map (\<lambda>containerId.
                      (catch (container_kill docker containerId) (\<lambda>_. resolve ()), \<lambda>_.
                       catch (container_remove docker containerId) (\<lambda>_. resolve ())))
                 containers) w1 = (rr, w')" and r: "r = (case rr of Inl err \<Rightarrow> Inl err | Inr us \<Rightarrow> Inr ())"
    by (auto simp: await_def resolve_def split: prod.splits sum.splits)
  from teardown_all [OF pa] r w1 show ?thesis by auto
qed

text \<open>
  Claim C10. Whatever the engine does, \<open>stopDockerTunnel\<close> resolves successfully, and
  at that moment it has made no request: the world is the one it was called in. The
  locked block is the one computation it leaves behind, awaited by nobody. Whenever that
  block runs, it either fails because \<open>listContainers\<close> was rejected, which is its only
  request then, or it lists the containers and asks to kill and to remove each of them,
  and succeeds whatever the answers to these requests are. Neither outcome reaches the
  caller of \<open>stopDockerTunnel\<close>.
\<close>

theorem stopDockerTunnel_resolves_before_teardown:
  "fst (stopDockerTunnel docker proxyPort w) = Inr ()
   \<and> fst (snd (stopDockerTunnel docker proxyPort w)) = w
   \<and> snd (snd (stopDockerTunnel docker proxyPort w)) = [stopDockerTunnel_locked docker proxyPort]
   \<and> (\<forall>w1 r1 w2. stopDockerTunnel_locked docker proxyPort w1 = (r1, w2) \<longrightarrow>
         (\<exists>e. r1 = Inl (EngineError e)
            \<and> events w2 = events w1 @ [EvListContainers (teardown_label proxyPort) (Inl e)])
         \<or> (\<exists>containers answers. r1 = Inr () \<and> length answers = length containers
            \<and> events w2 = events w1 @ EvListContainers (teardown_label proxyPort) (Inr containers)
                 # teardown_events containers answers))"
proof (intro conjI allI impI)
  show "fst (stopDockerTunnel docker proxyPort w) = Inr ()" by (simp add: stopDockerTunnel_def)
  show "fst (snd (stopDockerTunnel docker proxyPort w)) = w" by (simp add: stopDockerTunnel_def)
  show "snd (snd (stopDockerTunnel docker proxyPort w)) = [stopDockerTunnel_locked docker proxyPort]"
    by (simp add: stopDockerTunnel_def runExclusive_def)
next
  fix w1 r1 w2
  assume "stopDockerTunnel_locked docker proxyPort w1 = (r1, w2)"
  then show "(\<exists>e. r1 = Inl (EngineError e)
            \<and> events w2 = events w1 @ [EvListContainers (teardown_label proxyPort) (Inl e)])
         \<or> (\<exists>containers answers. r1 = Inr () \<and> length answers = length containers
            \<and> events w2 = events w1 @ EvListContainers (teardown_label proxyPort) (Inr containers)
                 # teardown_events containers answers)"
    by (rule stop_locked_trace)
qed

theorem stopDockerTunnel_resolves_before_teardown_witness:
  "fst (stopDockerTunnel broken_engine AllProxies (fresh_world ())) = Inr ()
   \<and> events (fst (snd (stopDockerTunnel broken_engine AllProxies (fresh_world ())))) = []
   \<and> map (\<lambda>job. fst (job (fresh_world ())))
        (snd (snd (stopDockerTunnel broken_engine AllProxies (fresh_world ()))))
      = [Inl (EngineError (EngineFailure (Some 500)))]
   \<and> fst (stopDockerTunnel (tunnel_engine [example_bridge]) (ProxyPort 8000)
          (fresh_world \<lparr>ts_imagePresent = True, ts_container = Some example_tunnel\<rparr>)) = Inr ()
   \<and> events (run_detached
        (snd (snd (stopDockerTunnel (tunnel_engine [example_bridge]) (ProxyPort 8000)
          (fresh_world \<lparr>ts_imagePresent = True, ts_container = Some example_tunnel\<rparr>))))
        (fst (snd (stopDockerTunnel (tunnel_engine [example_bridge]) (ProxyPort 8000)
          (fresh_world \<lparr>ts_imagePresent = True, ts_container = Some example_tunnel\<rparr>)))))
      = [EvListContainers ''tech.httptoolkit.docker.tunnel=8000'' (Inr [''tunnel-id'']),
         EvKill ''tunnel-id'' (Inr ()), EvRemove ''tunnel-id'' (Inr ())]
   \<and> map (\<lambda>job. job (fresh_world ()))
        (snd (snd (stopDockerTunnel
           (broken_engine\<lparr>e_listContainers := (\<lambda>label s. (Inr [''t1'', ''t2''], s))\<rparr>)
           AllProxies (fresh_world ()))))
      = [(Inr (), \<lparr>est = (), events =
            [EvListContainers ''tech.httptoolkit.docker.tunnel'' (Inr [''t1'', ''t2'']),
             EvKill ''t1'' (Inl (EngineFailure (Some 500))),
             EvKill ''t2'' (Inl (EngineFailure (Some 500))),
             EvRemove ''t1'' (Inl (EngineFailure (Some 500))),
             EvRemove ''t2'' (Inl (EngineFailure (Some 500)))]\<rparr>)]"
  using stopDockerTunnel_resolves_before_teardown [of broken_engine AllProxies "fresh_world ()"]
  by (simp add: stopDockerTunnel_def stopDockerTunnel_locked_def run_detached_def broken_engine_def
      promise_all_async_def tunnel_eval io_defs example_defs)

end
